theory Spec2Isabelle
  imports Main "HOL-Library.Word"
begin

unbundle bit_operations_syntax

section \<open>The basic branch target buffer of \<^verbatim>\<open>btb/basic_btb/basic_btb.cc\<close>\<close>

text \<open>
  The module keeps, for one simulated core, a set-associative target cache, a hashed
  indirect-target table indexed with a conditional-history register, a return address
  stack (RAS) and a table of call-instruction sizes. The C++ globals are keyed by core;
  the model is the state of one core, passed explicitly and returned updated.
  Addresses and cycle stamps are \<^verbatim>\<open>uint64_t\<close>, modelled as \<^typ>\<open>64 word\<close>;
  \<^verbatim>\<open>uint8_t\<close> values are \<^typ>\<open>8 word\<close>; the history register is a
  \<^verbatim>\<open>std::bitset<lg2(4096)>\<close>, a \<^typ>\<open>12 word\<close>; the RAS index is a C \<^verbatim>\<open>int\<close>,
  modelled as \<^typ>\<open>int\<close> (it never leaves the interval from -1 to 64 on the paths
  below). Fixed-size arrays are lists; an access outside the array is undefined
  behaviour in C++ and is the error value \<open>OutOfBounds\<close> in the model.
\<close>

subsection \<open>Sizes\<close>

definition BASIC_BTB_SETS :: nat where
  "BASIC_BTB_SETS = 1024"

definition BASIC_BTB_WAYS :: nat where
  "BASIC_BTB_WAYS = 8"

definition BASIC_BTB_INDIRECT_SIZE :: nat where
  "BASIC_BTB_INDIRECT_SIZE = 4096"

definition BASIC_BTB_RAS_SIZE :: int where
  "BASIC_BTB_RAS_SIZE = 64"

definition BASIC_BTB_CALL_INSTR_SIZE_TRACKERS :: nat where
  "BASIC_BTB_CALL_INSTR_SIZE_TRACKERS = 1024"

subsection \<open>Data\<close>

record BASIC_BTB_ENTRY =
  ip_tag :: "64 word"
  target :: "64 word"
  always_taken :: bool
  last_cycle_used :: "64 word"

text \<open>
  Modelled from the spec: the enumeration of branch kinds is declared in a header that
  is not part of the sources at hand. The spec lists the kinds CONDITIONAL, DIRECT
  (unconditional jump), DIRECT_CALL, INDIRECT, INDIRECT_CALL and RETURN; the code names
  five of them \<^verbatim>\<open>BRANCH_CONDITIONAL\<close>, \<^verbatim>\<open>BRANCH_DIRECT_CALL\<close>, \<^verbatim>\<open>BRANCH_INDIRECT\<close>,
  \<^verbatim>\<open>BRANCH_INDIRECT_CALL\<close> and \<^verbatim>\<open>BRANCH_RETURN\<close>.
\<close>

datatype branch_type =
    BRANCH_DIRECT_JUMP
  | BRANCH_INDIRECT
  | BRANCH_CONDITIONAL
  | BRANCH_DIRECT_CALL
  | BRANCH_INDIRECT_CALL
  | BRANCH_RETURN

record btb_state =
  basic_btb :: "BASIC_BTB_ENTRY list"
  basic_btb_indirect :: "64 word list"
  basic_btb_conditional_history :: "12 word"
  basic_btb_ras :: "64 word list"
  basic_btb_ras_index :: int
  basic_btb_call_instr_sizes :: "64 word list"

datatype error = OutOfBounds

text \<open>The arrays have their declared sizes and the RAS index is a valid subscript.\<close>

definition wf_state :: "btb_state \<Rightarrow> bool" where
  "wf_state s \<longleftrightarrow>
     length (basic_btb s) = BASIC_BTB_SETS * BASIC_BTB_WAYS \<and>
     length (basic_btb_indirect s) = BASIC_BTB_INDIRECT_SIZE \<and>
     int (length (basic_btb_ras s)) = BASIC_BTB_RAS_SIZE \<and>
     0 \<le> basic_btb_ras_index s \<and> basic_btb_ras_index s < BASIC_BTB_RAS_SIZE \<and>
     length (basic_btb_call_instr_sizes s) = BASIC_BTB_CALL_INSTR_SIZE_TRACKERS"

subsection \<open>Address distance\<close>

definition basic_btb_abs_addr_dist :: "64 word \<Rightarrow> 64 word \<Rightarrow> 64 word" where
  "basic_btb_abs_addr_dist addr1 addr2 =
     (if addr1 > addr2 then addr1 - addr2 else addr2 - addr1)"

subsection \<open>Return address stack\<close>

definition push_basic_btb_ras :: "btb_state \<Rightarrow> 64 word \<Rightarrow> error + btb_state" where
  "push_basic_btb_ras s ip =
     (let i = basic_btb_ras_index s + 1;
          i' = (if i = BASIC_BTB_RAS_SIZE then 0 else i)
      in if 0 \<le> i' \<and> nat i' < length (basic_btb_ras s)
         then Inr (s\<lparr>basic_btb_ras := (basic_btb_ras s)[nat i' := ip],
                     basic_btb_ras_index := i'\<rparr>)
         else Inl OutOfBounds)"

definition peek_basic_btb_ras :: "btb_state \<Rightarrow> error + 64 word" where
  "peek_basic_btb_ras s =
     (let i = basic_btb_ras_index s
      in if 0 \<le> i \<and> nat i < length (basic_btb_ras s)
         then Inr (basic_btb_ras s ! nat i)
         else Inl OutOfBounds)"

definition pop_basic_btb_ras :: "btb_state \<Rightarrow> error + (64 word \<times> btb_state)" where
  "pop_basic_btb_ras s =
     (let i = basic_btb_ras_index s
      in if 0 \<le> i \<and> nat i < length (basic_btb_ras s)
         then
           (let target = basic_btb_ras s ! nat i;
                j = i - 1;
                j' = (if j = - 1 then j + BASIC_BTB_RAS_SIZE else j)
            in Inr (target, s\<lparr>basic_btb_ras := (basic_btb_ras s)[nat i := 0],
                               basic_btb_ras_index := j'\<rparr>))
         else Inl OutOfBounds)"

subsection \<open>Call-size tracker\<close>

definition basic_btb_call_size_tracker_hash :: "64 word \<Rightarrow> 64 word" where
  "basic_btb_call_size_tracker_hash ip =
     ip AND (word_of_nat BASIC_BTB_CALL_INSTR_SIZE_TRACKERS - 1)"

definition basic_btb_get_call_size :: "btb_state \<Rightarrow> 64 word \<Rightarrow> error + 64 word" where
  "basic_btb_get_call_size s ip =
     (let h = unat (basic_btb_call_size_tracker_hash ip)
      in if h < length (basic_btb_call_instr_sizes s)
         then Inr (basic_btb_call_instr_sizes s ! h)
         else Inl OutOfBounds)"

subsection \<open>Initialisation\<close>

text \<open>
  \<^verbatim>\<open>initialize_btb\<close> overwrites every element of every array and both scalars, so its
  result does not depend on the state before.
\<close>

definition initialize_btb :: btb_state where
  "initialize_btb =
     \<lparr>basic_btb = replicate (BASIC_BTB_SETS * BASIC_BTB_WAYS)
                    \<lparr>ip_tag = 0, target = 0, always_taken = False, last_cycle_used = 0\<rparr>,
      basic_btb_indirect = replicate BASIC_BTB_INDIRECT_SIZE 0,
      basic_btb_conditional_history = 0,
      basic_btb_ras = replicate (nat BASIC_BTB_RAS_SIZE) 0,
      basic_btb_ras_index = 0,
      basic_btb_call_instr_sizes = replicate BASIC_BTB_CALL_INSTR_SIZE_TRACKERS 4\<rparr>"

subsection \<open>Scanning one set of the target cache\<close>

text \<open>
  \<^verbatim>\<open>std::find_if(set_begin, set_end, tag == ip)\<close>: iterators are positions in the array;
  the scan starts at \<open>first\<close>, looks at \<open>n\<close> entries and returns the position of the
  first entry whose tag is \<open>ip\<close>, or the end position \<open>first + n\<close>.
\<close>

primrec find_if_tag :: "BASIC_BTB_ENTRY list \<Rightarrow> 64 word \<Rightarrow> nat \<Rightarrow> nat \<Rightarrow> nat" where
  "find_if_tag arr ip first 0 = first"
| "find_if_tag arr ip first (Suc n) =
     (if ip_tag (arr ! first) = ip then first else find_if_tag arr ip (Suc first) n)"

text \<open>
  \<^verbatim>\<open>std::min_element(set_begin, set_end, x.last_cycle_used < y.last_cycle_used)\<close>:
  the loop keeps the position \<open>smallest\<close> and replaces it only by a strictly smaller
  element; on an empty range the result is the end position.
\<close>

primrec min_element_loop :: "BASIC_BTB_ENTRY list \<Rightarrow> nat \<Rightarrow> nat \<Rightarrow> nat \<Rightarrow> nat" where
  "min_element_loop arr smallest first 0 = smallest"
| "min_element_loop arr smallest first (Suc n) =
     min_element_loop arr
       (if last_cycle_used (arr ! first) < last_cycle_used (arr ! smallest)
        then first else smallest)
       (Suc first) n"

definition min_element_lru :: "BASIC_BTB_ENTRY list \<Rightarrow> nat \<Rightarrow> nat \<Rightarrow> nat" where
  "min_element_lru arr first n =
     (if n = 0 then first else min_element_loop arr first (Suc first) (n - 1))"

definition btb_set_begin :: "64 word \<Rightarrow> nat" where
  "btb_set_begin ip = (unat (drop_bit 2 ip) mod BASIC_BTB_SETS) * BASIC_BTB_WAYS"

definition btb_set_end :: "64 word \<Rightarrow> nat" where
  "btb_set_end ip = btb_set_begin ip + BASIC_BTB_WAYS"

subsection \<open>Prediction\<close>

text \<open>
  Both entry points compute the subscript of the indirect table from the address and the
  history register in the same way; \<open>indirect_index\<close> is that expression. In
  \<open>btb_prediction\<close> the local \<^verbatim>\<open>always_taken\<close> of the source is called \<open>hint\<close>, since
  \<open>always_taken\<close> is also the name of the entry's field. The result is the returned pair
  together with the state after the call.
\<close>

definition indirect_index :: "btb_state \<Rightarrow> 64 word \<Rightarrow> nat" where
  "indirect_index s ip =
     unat (drop_bit 2 ip XOR ucast (basic_btb_conditional_history s))
       mod BASIC_BTB_INDIRECT_SIZE"

definition btb_prediction ::
  "btb_state \<Rightarrow> 64 word \<Rightarrow> branch_type \<Rightarrow> 64 word
     \<Rightarrow> error + ((64 word \<times> 8 word) \<times> btb_state)" where
  "btb_prediction s ip bt current_cycle =
     (let hint = (if bt \<noteq> BRANCH_CONDITIONAL then 1 else 0)
      in case (if bt = BRANCH_DIRECT_CALL \<or> bt = BRANCH_INDIRECT_CALL
               then push_basic_btb_ras s ip else Inr s) of
           Inl e \<Rightarrow> Inl e
         | Inr s1 \<Rightarrow>
             if bt = BRANCH_RETURN then
               (case peek_basic_btb_ras s1 of
                  Inl e \<Rightarrow> Inl e
                | Inr ras_top \<Rightarrow>
                    (case basic_btb_get_call_size s1 ras_top of
                       Inl e \<Rightarrow> Inl e
                     | Inr sz \<Rightarrow> Inr ((ras_top + sz, hint), s1)))
             else if bt = BRANCH_INDIRECT \<or> bt = BRANCH_INDIRECT_CALL then
               (let i = indirect_index s1 ip
                in if i < length (basic_btb_indirect s1)
                   then Inr ((basic_btb_indirect s1 ! i, hint), s1)
                   else Inl OutOfBounds)
             else
               (let set_begin = btb_set_begin ip;
                    set_end = btb_set_end ip
                in if set_end \<le> length (basic_btb s1) then
                     (let btb_entry = find_if_tag (basic_btb s1) ip set_begin BASIC_BTB_WAYS
                      in if btb_entry = set_end then Inr ((0, 1), s1)
                         else
                           (let e = basic_btb s1 ! btb_entry
                            in Inr ((target e, if always_taken e then 1 else 0),
                                    s1\<lparr>basic_btb := (basic_btb s1)
                                         [btb_entry := e\<lparr>last_cycle_used := current_cycle\<rparr>]\<rparr>)))
                   else Inl OutOfBounds))"

subsection \<open>Update\<close>

text \<open>
  The position \<^verbatim>\<open>btb_entry\<close> holds when \<^verbatim>\<open>update_btb\<close> reaches its final assignment
  \<^verbatim>\<open>*btb_entry = {...}\<close>: the victim chosen by \<^verbatim>\<open>std::min_element\<close> when the lookup
  missed and the branch was taken to a non-zero target, and otherwise whatever
  \<^verbatim>\<open>std::find_if\<close> returned, which is \<^verbatim>\<open>set_end\<close> on a miss.
\<close>

definition update_btb_allocates :: "BASIC_BTB_ENTRY list \<Rightarrow> 64 word \<Rightarrow> 64 word \<Rightarrow> 8 word \<Rightarrow> bool" where
  "update_btb_allocates arr ip branch_target taken \<longleftrightarrow>
     find_if_tag arr ip (btb_set_begin ip) BASIC_BTB_WAYS = btb_set_end ip \<and>
     branch_target \<noteq> 0 \<and> taken \<noteq> 0"

definition update_btb_slot :: "BASIC_BTB_ENTRY list \<Rightarrow> 64 word \<Rightarrow> 64 word \<Rightarrow> 8 word \<Rightarrow> nat" where
  "update_btb_slot arr ip branch_target taken =
     (if update_btb_allocates arr ip branch_target taken
      then min_element_lru arr (btb_set_begin ip) BASIC_BTB_WAYS
      else find_if_tag arr ip (btb_set_begin ip) BASIC_BTB_WAYS)"

text \<open>\<^verbatim>\<open>bitset::set(0, val)\<close> on the history register.\<close>

definition bitset_set0 :: "12 word \<Rightarrow> bool \<Rightarrow> 12 word" where
  "bitset_set0 h val = (if val then set_bit 0 h else unset_bit 0 h)"

definition update_btb ::
  "btb_state \<Rightarrow> 64 word \<Rightarrow> 64 word \<Rightarrow> 8 word \<Rightarrow> branch_type \<Rightarrow> 64 word
     \<Rightarrow> error + btb_state" where
  "update_btb s ip branch_target taken bt current_cycle =
     (case (if bt = BRANCH_INDIRECT \<or> bt = BRANCH_INDIRECT_CALL
            then (let i = indirect_index s ip
                  in if i < length (basic_btb_indirect s)
                     then Inr (s\<lparr>basic_btb_indirect := (basic_btb_indirect s)[i := branch_target]\<rparr>)
                     else Inl OutOfBounds)
            else Inr s) of
        Inl e \<Rightarrow> Inl e
      | Inr s1 \<Rightarrow>
          (let s2 = (if bt = BRANCH_CONDITIONAL
                     then s1\<lparr>basic_btb_conditional_history :=
                              bitset_set0 (push_bit 1 (basic_btb_conditional_history s1))
                                (taken \<noteq> 0)\<rparr>
                     else s1)
           in if bt = BRANCH_RETURN then
                (case pop_basic_btb_ras s2 of
                   Inl e \<Rightarrow> Inl e
                 | Inr (call_ip, s3) \<Rightarrow>
                     (let estimated_call_instr_size = basic_btb_abs_addr_dist call_ip branch_target
                      in if estimated_call_instr_size \<le> 10 then
                           (let h = unat (basic_btb_call_size_tracker_hash call_ip)
                            in if h < length (basic_btb_call_instr_sizes s3)
                               then Inr (s3\<lparr>basic_btb_call_instr_sizes :=
                                             (basic_btb_call_instr_sizes s3)
                                               [h := estimated_call_instr_size]\<rparr>)
                               else Inl OutOfBounds)
                         else Inr s3))
              else if bt \<noteq> BRANCH_INDIRECT \<and> bt \<noteq> BRANCH_INDIRECT_CALL then
                (if btb_set_end ip \<le> length (basic_btb s2) then
                   (let arr = basic_btb s2;
                        fresh = update_btb_allocates arr ip branch_target taken;
                        btb_entry = update_btb_slot arr ip branch_target taken
                    in if btb_entry < length arr then
                         (let prev = (if fresh then True else always_taken (arr ! btb_entry))
                          in Inr (s2\<lparr>basic_btb := arr
                                      [btb_entry := \<lparr>ip_tag = ip, target = branch_target,
                                                     always_taken = (prev \<and> taken \<noteq> 0),
                                                     last_cycle_used = current_cycle\<rparr>]\<rparr>))
                       else Inl OutOfBounds)
                 else Inl OutOfBounds)
              else Inr s2))"

text \<open>The branch kinds that both entry points route to the target cache.\<close>

definition cache_kind :: "branch_type \<Rightarrow> bool" where
  "cache_kind bt \<longleftrightarrow>
     bt \<noteq> BRANCH_RETURN \<and> bt \<noteq> BRANCH_INDIRECT \<and> bt \<noteq> BRANCH_INDIRECT_CALL"

text \<open>
  An entry with its flag cleared: \<open>ip\<close> hits at position \<open>j\<close> of its set and
  the always-taken flag of that entry is cleared.
\<close>

definition cleared_hit :: "btb_state \<Rightarrow> 64 word \<Rightarrow> nat \<Rightarrow> bool" where
  "cleared_hit s ip j \<longleftrightarrow>
     wf_state s \<and>
     find_if_tag (basic_btb s) ip (btb_set_begin ip) BASIC_BTB_WAYS = j \<and>
     j \<noteq> btb_set_end ip \<and> \<not> always_taken (basic_btb s ! j)"

subsection \<open>Sequences of RAS operations\<close>

text \<open>Pushing a list of addresses in order, and popping \<open>n\<close> times, collecting the results.\<close>

fun pushes :: "btb_state \<Rightarrow> 64 word list \<Rightarrow> error + btb_state" where
  "pushes s [] = Inr s"
| "pushes s (x # xs) =
     (case push_basic_btb_ras s x of Inl e \<Rightarrow> Inl e | Inr s' \<Rightarrow> pushes s' xs)"

fun pops :: "btb_state \<Rightarrow> nat \<Rightarrow> error + (64 word list \<times> btb_state)" where
  "pops s 0 = Inr ([], s)"
| "pops s (Suc n) =
     (case pop_basic_btb_ras s of
        Inl e \<Rightarrow> Inl e
      | Inr (a, s') \<Rightarrow>
          (case pops s' n of Inl e \<Rightarrow> Inl e | Inr (as, s'') \<Rightarrow> Inr (a # as, s'')))"

text \<open>The \<open>k\<close> topmost slots of the ring, read downwards from the current index.\<close>

definition ras_view :: "btb_state \<Rightarrow> nat \<Rightarrow> 64 word list" where
  "ras_view s k =
     map (\<lambda>j. basic_btb_ras s ! nat ((basic_btb_ras_index s - int j) mod BASIC_BTB_RAS_SIZE))
       [0..<k]"

subsection \<open>Sequences of calls\<close>

text \<open>
  The two entry points as seen by the pipeline: a call of \<^verbatim>\<open>btb_prediction\<close> with the
  address, the branch kind and the current cycle, or a call of \<^verbatim>\<open>update_btb\<close> with the
  address, the resolved target, the outcome, the branch kind and the current cycle. A
  sequence of calls runs from left to right and stops at the first undefined access.
\<close>

datatype btb_call =
    Predict "64 word" branch_type "64 word"
  | Update "64 word" "64 word" "8 word" branch_type "64 word"

fun btb_step :: "btb_state \<Rightarrow> btb_call \<Rightarrow> error + btb_state" where
  "btb_step s (Predict ip bt current_cycle) =
     (case btb_prediction s ip bt current_cycle of Inl e \<Rightarrow> Inl e | Inr (r, s') \<Rightarrow> Inr s')"
| "btb_step s (Update ip branch_target taken bt current_cycle) =
     update_btb s ip branch_target taken bt current_cycle"

fun btb_run :: "btb_state \<Rightarrow> btb_call list \<Rightarrow> error + btb_state" where
  "btb_run s [] = Inr s"
| "btb_run s (c # cs) =
     (case btb_step s c of Inl e \<Rightarrow> Inl e | Inr s' \<Rightarrow> btb_run s' cs)"

section \<open>Facts about the scans\<close>

lemma find_if_tag_bounds:
  "first \<le> find_if_tag arr ip first n \<and> find_if_tag arr ip first n \<le> first + n"
proof (induction n arbitrary: first)
  case 0
  then show ?case by simp
next
  case (Suc n)
  from Suc.IH [of "Suc first"] show ?case by auto
qed

lemma find_if_tag_hit:
  "find_if_tag arr ip first n \<noteq> first + n \<Longrightarrow>
     ip_tag (arr ! find_if_tag arr ip first n) = ip"
  by (induction n arbitrary: first) auto

lemma find_if_tag_first:
  "first \<le> k \<Longrightarrow> k < find_if_tag arr ip first n \<Longrightarrow> ip_tag (arr ! k) \<noteq> ip"
proof (induction n arbitrary: first)
  case 0
  then show ?case by simp
next
  case (Suc n)
  show ?case
  proof (cases "ip_tag (arr ! first) = ip")
    case True
    with Suc.prems show ?thesis by simp
  next
    case False
    show ?thesis
    proof (cases "k = first")
      case True
      with False show ?thesis by simp
    next
      case ne: False
      with Suc.prems have "Suc first \<le> k" by simp
      moreover from Suc.prems False have "k < find_if_tag arr ip (Suc first) n" by simp
      ultimately show ?thesis by (rule Suc.IH)
    qed
  qed
qed

lemma find_if_tag_miss_iff:
  "find_if_tag arr ip first n = first + n \<longleftrightarrow>
     (\<forall>k. first \<le> k \<and> k < first + n \<longrightarrow> ip_tag (arr ! k) \<noteq> ip)"
proof
  assume "find_if_tag arr ip first n = first + n"
  then show "\<forall>k. first \<le> k \<and> k < first + n \<longrightarrow> ip_tag (arr ! k) \<noteq> ip"
    using find_if_tag_first [of first _ arr ip n] by auto
next
  assume h: "\<forall>k. first \<le> k \<and> k < first + n \<longrightarrow> ip_tag (arr ! k) \<noteq> ip"
  show "find_if_tag arr ip first n = first + n"
  proof (rule ccontr)
    assume ne: "find_if_tag arr ip first n \<noteq> first + n"
    then have "ip_tag (arr ! find_if_tag arr ip first n) = ip"
      by (rule find_if_tag_hit)
    moreover from ne find_if_tag_bounds [of first arr ip n]
    have "first \<le> find_if_tag arr ip first n \<and> find_if_tag arr ip first n < first + n"
      by simp
    ultimately show False using h by blast
  qed
qed

lemma min_element_loop_bounds:
  "smallest < first \<Longrightarrow>
     min_element_loop arr smallest first n < first + n \<and>
     (min_element_loop arr smallest first n = smallest \<or>
      first \<le> min_element_loop arr smallest first n)"
proof (induction n arbitrary: smallest first)
  case 0
  then show ?case by simp
next
  case (Suc n)
  let ?s = "if last_cycle_used (arr ! first) < last_cycle_used (arr ! smallest)
            then first else smallest"
  from Suc.prems have "?s < Suc first" by simp
  from Suc.IH [OF this] show ?case by (auto split: if_splits)
qed

lemma min_element_loop_le:
  "min_element_loop arr smallest first n = m \<Longrightarrow>
     last_cycle_used (arr ! m) \<le> last_cycle_used (arr ! smallest) \<and>
     (\<forall>k. first \<le> k \<and> k < first + n \<longrightarrow> last_cycle_used (arr ! m) \<le> last_cycle_used (arr ! k))"
proof (induction n arbitrary: smallest first)
  case 0
  then show ?case by auto
next
  case (Suc n)
  let ?s = "if last_cycle_used (arr ! first) < last_cycle_used (arr ! smallest)
            then first else smallest"
  from Suc.prems have "min_element_loop arr ?s (Suc first) n = m" by simp
  from Suc.IH [OF this]
  have a: "last_cycle_used (arr ! m) \<le> last_cycle_used (arr ! ?s)"
    and b: "\<forall>k. Suc first \<le> k \<and> k < Suc first + n \<longrightarrow>
              last_cycle_used (arr ! m) \<le> last_cycle_used (arr ! k)"
    by blast+
  have c: "last_cycle_used (arr ! ?s) \<le> last_cycle_used (arr ! smallest)"
    and d: "last_cycle_used (arr ! ?s) \<le> last_cycle_used (arr ! first)"
    by auto
  from a c have "last_cycle_used (arr ! m) \<le> last_cycle_used (arr ! smallest)" by simp
  moreover have "\<forall>k. first \<le> k \<and> k < first + Suc n \<longrightarrow>
              last_cycle_used (arr ! m) \<le> last_cycle_used (arr ! k)"
  proof (intro allI impI)
    fix k assume k: "first \<le> k \<and> k < first + Suc n"
    show "last_cycle_used (arr ! m) \<le> last_cycle_used (arr ! k)"
    proof (cases "k = first")
      case True
      with a d show ?thesis by simp
    next
      case False
      with k b show ?thesis by simp
    qed
  qed
  ultimately show ?case by blast
qed

text \<open>Every position that the loop passed before settling on the result is strictly larger.\<close>

lemma min_element_loop_strict:
  "min_element_loop arr smallest first n = m \<Longrightarrow> smallest < first \<Longrightarrow> m \<noteq> smallest \<Longrightarrow>
     last_cycle_used (arr ! m) < last_cycle_used (arr ! smallest) \<and>
     (\<forall>k. first \<le> k \<and> k < m \<longrightarrow> last_cycle_used (arr ! m) < last_cycle_used (arr ! k))"
proof (induction n arbitrary: smallest first)
  case 0
  then show ?case by simp
next
  case (Suc n)
  let ?s = "if last_cycle_used (arr ! first) < last_cycle_used (arr ! smallest)
            then first else smallest"
  from Suc.prems have run: "min_element_loop arr ?s (Suc first) n = m" by simp
  have lt: "?s < Suc first" using Suc.prems by simp
  have le: "last_cycle_used (arr ! m) \<le> last_cycle_used (arr ! ?s)"
    using min_element_loop_le [OF run] by blast
  show ?case
  proof (cases "m = ?s")
    case True
    with Suc.prems show ?thesis by (auto split: if_splits)
  next
    case False
    from Suc.IH [OF run lt False]
    have a: "last_cycle_used (arr ! m) < last_cycle_used (arr ! ?s)"
      and b: "\<forall>k. Suc first \<le> k \<and> k < m \<longrightarrow> last_cycle_used (arr ! m) < last_cycle_used (arr ! k)"
      by blast+
    have c: "last_cycle_used (arr ! ?s) \<le> last_cycle_used (arr ! smallest)"
      and d: "last_cycle_used (arr ! ?s) \<le> last_cycle_used (arr ! first)"
      by auto
    from a c have "last_cycle_used (arr ! m) < last_cycle_used (arr ! smallest)" by simp
    moreover have "\<forall>k. first \<le> k \<and> k < m \<longrightarrow> last_cycle_used (arr ! m) < last_cycle_used (arr ! k)"
    proof (intro allI impI)
      fix k assume k: "first \<le> k \<and> k < m"
      show "last_cycle_used (arr ! m) < last_cycle_used (arr ! k)"
      proof (cases "k = first")
        case True
        with a d show ?thesis by simp
      next
        case False
        with k b show ?thesis by simp
      qed
    qed
    ultimately show ?thesis by blast
  qed
qed

lemma min_element_lru_range:
  "0 < n \<Longrightarrow> first \<le> min_element_lru arr first n \<and> min_element_lru arr first n < first + n"
  using min_element_loop_bounds [of first "Suc first" arr "n - 1"]
  by (auto simp: min_element_lru_def)

lemma min_element_lru_least:
  "0 < n \<Longrightarrow> first \<le> k \<Longrightarrow> k < first + n \<Longrightarrow>
     last_cycle_used (arr ! min_element_lru arr first n) \<le> last_cycle_used (arr ! k)"
  using min_element_loop_le [of arr first "Suc first" "n - 1" "min_element_lru arr first n"]
  by (cases "k = first") (auto simp: min_element_lru_def)

lemma min_element_lru_first:
  "0 < n \<Longrightarrow> first \<le> k \<Longrightarrow> k < min_element_lru arr first n \<Longrightarrow>
     last_cycle_used (arr ! min_element_lru arr first n) < last_cycle_used (arr ! k)"
  using min_element_loop_strict [of arr first "Suc first" "n - 1" "min_element_lru arr first n"]
  by (cases "k = first") (auto simp: min_element_lru_def)

lemma btb_set_end_le: "btb_set_end ip \<le> BASIC_BTB_SETS * BASIC_BTB_WAYS"
proof -
  have "unat (drop_bit 2 ip) mod BASIC_BTB_SETS < BASIC_BTB_SETS"
    by (simp add: BASIC_BTB_SETS_def)
  then have "Suc (unat (drop_bit 2 ip) mod BASIC_BTB_SETS) \<le> BASIC_BTB_SETS" by simp
  then have "Suc (unat (drop_bit 2 ip) mod BASIC_BTB_SETS) * BASIC_BTB_WAYS
               \<le> BASIC_BTB_SETS * BASIC_BTB_WAYS"
    by (rule mult_le_mono1)
  then show ?thesis by (simp add: btb_set_end_def btb_set_begin_def)
qed

lemma wf_state_initialize_btb: "wf_state initialize_btb"
  by (simp add: wf_state_def initialize_btb_def BASIC_BTB_RAS_SIZE_def)

section \<open>The return address stack\<close>


lemma push_basic_btb_ras_wf:
  assumes "wf_state s"
  shows "\<exists>s'. push_basic_btb_ras s ip = Inr s' \<and> wf_state s' \<and>
           basic_btb_ras_index s' = (basic_btb_ras_index s + 1) mod BASIC_BTB_RAS_SIZE \<and>
           basic_btb_ras s' = (basic_btb_ras s)[nat (basic_btb_ras_index s') := ip] \<and>
           basic_btb s' = basic_btb s \<and> basic_btb_indirect s' = basic_btb_indirect s \<and>
           basic_btb_conditional_history s' = basic_btb_conditional_history s \<and>
           basic_btb_call_instr_sizes s' = basic_btb_call_instr_sizes s"
proof -
  let ?i = "basic_btb_ras_index s"
  from assms have r: "0 \<le> ?i" "?i < 64" "length (basic_btb_ras s) = 64"
    by (simp_all add: wf_state_def BASIC_BTB_RAS_SIZE_def)
  show ?thesis
  proof (cases "?i = 63")
    case True
    with r assms show ?thesis
      by (simp add: push_basic_btb_ras_def wf_state_def BASIC_BTB_RAS_SIZE_def Let_def)
  next
    case False
    with r have m: "(?i + 1) mod 64 = ?i + 1" by simp
    from False r assms show ?thesis
      by (simp add: push_basic_btb_ras_def wf_state_def BASIC_BTB_RAS_SIZE_def Let_def m)
  qed
qed

lemma pop_basic_btb_ras_wf:
  assumes "wf_state s"
  shows "\<exists>s'. pop_basic_btb_ras s = Inr (basic_btb_ras s ! nat (basic_btb_ras_index s), s') \<and>
           wf_state s' \<and>
           basic_btb_ras_index s' = (basic_btb_ras_index s - 1) mod BASIC_BTB_RAS_SIZE \<and>
           basic_btb_ras s' = (basic_btb_ras s)[nat (basic_btb_ras_index s) := 0] \<and>
           basic_btb s' = basic_btb s \<and> basic_btb_indirect s' = basic_btb_indirect s \<and>
           basic_btb_conditional_history s' = basic_btb_conditional_history s \<and>
           basic_btb_call_instr_sizes s' = basic_btb_call_instr_sizes s"
proof -
  let ?i = "basic_btb_ras_index s"
  from assms have r: "0 \<le> ?i" "?i < 64" "length (basic_btb_ras s) = 64"
    by (simp_all add: wf_state_def BASIC_BTB_RAS_SIZE_def)
  show ?thesis
  proof (cases "?i = 0")
    case True
    with r assms show ?thesis
      by (simp add: pop_basic_btb_ras_def wf_state_def BASIC_BTB_RAS_SIZE_def Let_def)
  next
    case False
    with r have m: "(?i - 1) mod 64 = ?i - 1" by simp
    from False r assms show ?thesis
      by (simp add: pop_basic_btb_ras_def wf_state_def BASIC_BTB_RAS_SIZE_def Let_def m)
  qed
qed

lemma peek_basic_btb_ras_wf:
  "wf_state s \<Longrightarrow> peek_basic_btb_ras s = Inr (basic_btb_ras s ! nat (basic_btb_ras_index s))"
  by (auto simp: peek_basic_btb_ras_def wf_state_def BASIC_BTB_RAS_SIZE_def Let_def)

lemma ring_pos_distinct:
  "0 \<le> i \<Longrightarrow> i < 64 \<Longrightarrow> j < 63 \<Longrightarrow>
     nat ((i - int j) mod 64) \<noteq> nat ((i + 1) mod 64)"
proof -
  assume a: "0 \<le> i" "i < 64" "j < 63"
  have d: "(i + 1) - (i - int j) = int j + 1" by simp
  have "\<not> (64::int) dvd ((i + 1) - (i - int j))"
    unfolding d using a by (intro zdvd_not_zless) simp_all
  then have "(i - int j) mod 64 \<noteq> (i + 1) mod 64"
    using mod_eq_dvd_iff [of "i + 1" 64 "i - int j"] by metis
  moreover have "0 \<le> (i - int j) mod 64" "0 \<le> (i + 1) mod 64" by simp_all
  ultimately show ?thesis by (simp add: nat_eq_iff)
qed

lemma ring_pos_distinct_pop:
  "0 \<le> i \<Longrightarrow> i < 64 \<Longrightarrow> j < 63 \<Longrightarrow>
     nat ((i - 1 - int j) mod 64) \<noteq> nat i"
proof -
  assume a: "0 \<le> i" "i < 64" "j < 63"
  have d: "i - (i - 1 - int j) = int j + 1" by simp
  have "\<not> (64::int) dvd (i - (i - 1 - int j))"
    unfolding d using a by (intro zdvd_not_zless) simp_all
  then have "(i - 1 - int j) mod 64 \<noteq> i mod 64"
    using mod_eq_dvd_iff [of i 64 "i - 1 - int j"] by metis
  moreover have "0 \<le> (i - 1 - int j) mod 64" by simp
  moreover have "i mod 64 = i" using a by simp
  ultimately show ?thesis using a by (simp add: nat_eq_iff)
qed

lemma ras_view_Suc:
  "ras_view s (Suc k) =
     basic_btb_ras s ! nat (basic_btb_ras_index s mod BASIC_BTB_RAS_SIZE) #
     map (\<lambda>j. basic_btb_ras s ! nat ((basic_btb_ras_index s - 1 - int j) mod BASIC_BTB_RAS_SIZE))
       [0..<k]"
proof -
  have "[0..<Suc k] = 0 # map Suc [0..<k]"
    by (simp add: upt_conv_Cons map_Suc_upt del: upt_Suc)
  then show ?thesis
    by (simp add: ras_view_def comp_def algebra_simps del: upt_Suc)
qed

lemma ras_view_take: "take m (ras_view s k) = ras_view s (min m k)"
proof -
  have "take m [0..<k] = [0..<min m k]"
    by (cases "m \<le> k") (simp_all add: min_def take_upt)
  then show ?thesis by (simp add: ras_view_def take_map)
qed

lemma ras_view_push:
  assumes wf: "wf_state s" and p: "push_basic_btb_ras s x = Inr s'" and k: "k < 64"
  shows "ras_view s' (Suc k) = x # ras_view s k"
proof -
  let ?i = "basic_btb_ras_index s"
  from wf have r: "0 \<le> ?i" "?i < 64" "length (basic_btb_ras s) = 64"
    by (simp_all add: wf_state_def BASIC_BTB_RAS_SIZE_def)
  from push_basic_btb_ras_wf [OF wf, of x] p
  have i': "basic_btb_ras_index s' = (?i + 1) mod 64"
    and ras': "basic_btb_ras s' = (basic_btb_ras s)[nat ((?i + 1) mod 64) := x]"
    by (auto simp: BASIC_BTB_RAS_SIZE_def)
  have lt: "nat ((?i + 1) mod 64) < 64" by (simp add: nat_less_iff)
  have hd: "basic_btb_ras s' ! nat (basic_btb_ras_index s' mod 64) = x"
    using lt r by (simp add: i' ras')
  have tl: "basic_btb_ras s' ! nat ((basic_btb_ras_index s' - 1 - int j) mod 64)
              = basic_btb_ras s ! nat ((?i - int j) mod 64)" if "j < k" for j
  proof -
    have "((?i + 1) mod 64 - (1 + int j)) mod 64 = (?i + 1 - (1 + int j)) mod 64"
      by (rule mod_diff_left_eq)
    then have e: "(basic_btb_ras_index s' - 1 - int j) mod 64 = (?i - int j) mod 64"
      unfolding i' by (simp add: algebra_simps)
    from that k have "j < 63" by simp
    from ring_pos_distinct [OF r(1) r(2) this]
    show ?thesis unfolding e ras' by simp
  qed
  show ?thesis
    unfolding ras_view_Suc BASIC_BTB_RAS_SIZE_def hd
    by (simp add: ras_view_def BASIC_BTB_RAS_SIZE_def tl)
qed

lemma pops_ras_view:
  "wf_state s \<Longrightarrow> k \<le> 64 \<Longrightarrow> \<exists>s'. pops s k = Inr (ras_view s k, s') \<and> wf_state s'"
proof (induction k arbitrary: s)
  case 0
  then show ?case by (simp add: ras_view_def)
next
  case (Suc k)
  let ?i = "basic_btb_ras_index s"
  from Suc.prems have r: "0 \<le> ?i" "?i < 64" "length (basic_btb_ras s) = 64"
    by (simp_all add: wf_state_def BASIC_BTB_RAS_SIZE_def)
  from pop_basic_btb_ras_wf [OF Suc.prems(1)] obtain s1 where
    p: "pop_basic_btb_ras s = Inr (basic_btb_ras s ! nat ?i, s1)" and wf1: "wf_state s1"
    and i1: "basic_btb_ras_index s1 = (?i - 1) mod 64"
    and ras1: "basic_btb_ras s1 = (basic_btb_ras s)[nat ?i := 0]"
    by (auto simp: BASIC_BTB_RAS_SIZE_def)
  from Suc.prems have "k \<le> 64" by simp
  from Suc.IH [OF wf1 this] obtain s2 where
    q: "pops s1 k = Inr (ras_view s1 k, s2)" and wf2: "wf_state s2" by blast
  have tl: "basic_btb_ras s1 ! nat ((basic_btb_ras_index s1 - int j) mod 64)
              = basic_btb_ras s ! nat ((?i - 1 - int j) mod 64)" if "j < k" for j
  proof -
    have e: "(basic_btb_ras_index s1 - int j) mod 64 = (?i - 1 - int j) mod 64"
      unfolding i1 by (simp add: mod_diff_left_eq)
    from that Suc.prems have "j < 63" by simp
    from ring_pos_distinct_pop [OF r(1) r(2) this]
    show ?thesis unfolding e ras1 by simp
  qed
  have "ras_view s (Suc k) = basic_btb_ras s ! nat ?i # ras_view s1 k"
    unfolding ras_view_Suc BASIC_BTB_RAS_SIZE_def using r
    by (simp add: ras_view_def BASIC_BTB_RAS_SIZE_def tl)
  with p q wf2 show ?case by simp
qed

lemma pushes_snoc:
  "pushes s (xs @ [x]) =
     (case pushes s xs of Inl e \<Rightarrow> Inl e | Inr s' \<Rightarrow> push_basic_btb_ras s' x)"
  by (induction xs arbitrary: s) (auto split: sum.splits)

lemma pushes_ras_view:
  "wf_state s \<Longrightarrow>
     \<exists>s'. pushes s xs = Inr s' \<and> wf_state s' \<and>
          ras_view s' (min 64 (length xs)) = take 64 (rev xs)"
proof (induction xs rule: rev_induct)
  case Nil
  then show ?case by (simp add: ras_view_def)
next
  case (snoc x xs)
  then obtain s1 where a: "pushes s xs = Inr s1" and wf1: "wf_state s1"
    and v: "ras_view s1 (min 64 (length xs)) = take 64 (rev xs)" by blast
  from push_basic_btb_ras_wf [OF wf1, of x] obtain s2 where
    p: "push_basic_btb_ras s1 x = Inr s2" and wf2: "wf_state s2" by blast
  have k: "min 63 (length xs) < 64" by simp
  have "ras_view s2 (min 64 (length (xs @ [x]))) = ras_view s2 (Suc (min 63 (length xs)))"
    by (simp add: min_def)
  also have "\<dots> = x # ras_view s1 (min 63 (length xs))"
    by (rule ras_view_push [OF wf1 p k])
  also have "ras_view s1 (min 63 (length xs)) = take 63 (ras_view s1 (min 64 (length xs)))"
    by (simp add: ras_view_take min.assoc [symmetric])
  also have "\<dots> = take 63 (rev xs)" by (simp add: v)
  finally have "ras_view s2 (min 64 (length (xs @ [x]))) = take 64 (rev (xs @ [x]))"
    by simp
  with a p wf2 show ?case by (simp add: pushes_snoc)
qed

text \<open>
  C9: the RAS top index is 0 after \<open>initialize_btb\<close>; from any state whose index lies in
  \<open>[0, BASIC_BTB_RAS_SIZE)\<close> a push and a pop both succeed and leave the index in that
  range; a push at index \<open>BASIC_BTB_RAS_SIZE - 1\<close> wraps to 0 and a pop at index 0 wraps
  to \<open>BASIC_BTB_RAS_SIZE - 1\<close>.
\<close>

theorem ras_index_in_range:
  assumes "wf_state s"
  shows "basic_btb_ras_index initialize_btb = 0 \<and>
         (\<exists>s'. push_basic_btb_ras s ip = Inr s' \<and> wf_state s' \<and>
               0 \<le> basic_btb_ras_index s' \<and> basic_btb_ras_index s' < BASIC_BTB_RAS_SIZE \<and>
               basic_btb_ras_index s' =
                 (if basic_btb_ras_index s = BASIC_BTB_RAS_SIZE - 1 then 0
                  else basic_btb_ras_index s + 1)) \<and>
         (\<exists>a s'. pop_basic_btb_ras s = Inr (a, s') \<and> wf_state s' \<and>
               0 \<le> basic_btb_ras_index s' \<and> basic_btb_ras_index s' < BASIC_BTB_RAS_SIZE \<and>
               basic_btb_ras_index s' =
                 (if basic_btb_ras_index s = 0 then BASIC_BTB_RAS_SIZE - 1
                  else basic_btb_ras_index s - 1))"
proof -
  let ?i = "basic_btb_ras_index s"
  from assms have r: "0 \<le> ?i" "?i < 64"
    by (simp_all add: wf_state_def BASIC_BTB_RAS_SIZE_def)
  have init: "basic_btb_ras_index initialize_btb = 0"
    by (simp add: initialize_btb_def)
  from push_basic_btb_ras_wf [OF assms, of ip] obtain s1 where
    p: "push_basic_btb_ras s ip = Inr s1" "wf_state s1"
       "basic_btb_ras_index s1 = (?i + 1) mod 64"
    by (auto simp: BASIC_BTB_RAS_SIZE_def)
  from pop_basic_btb_ras_wf [OF assms] obtain a s2 where
    q: "pop_basic_btb_ras s = Inr (a, s2)" "wf_state s2"
       "basic_btb_ras_index s2 = (?i - 1) mod 64"
    by (auto simp: BASIC_BTB_RAS_SIZE_def)
  have pi: "(?i + 1) mod 64 = (if ?i = 63 then 0 else ?i + 1)"
    using r by simp
  have qi: "(?i - 1) mod 64 = (if ?i = 0 then 63 else ?i - 1)"
    using r by simp
  from p pi r have "\<exists>s'. push_basic_btb_ras s ip = Inr s' \<and> wf_state s' \<and>
               0 \<le> basic_btb_ras_index s' \<and> basic_btb_ras_index s' < BASIC_BTB_RAS_SIZE \<and>
               basic_btb_ras_index s' =
                 (if ?i = BASIC_BTB_RAS_SIZE - 1 then 0 else ?i + 1)"
    by (simp add: BASIC_BTB_RAS_SIZE_def)
  moreover from q qi r have "\<exists>a s'. pop_basic_btb_ras s = Inr (a, s') \<and> wf_state s' \<and>
               0 \<le> basic_btb_ras_index s' \<and> basic_btb_ras_index s' < BASIC_BTB_RAS_SIZE \<and>
               basic_btb_ras_index s' =
                 (if ?i = 0 then BASIC_BTB_RAS_SIZE - 1 else ?i - 1)"
    by (simp add: BASIC_BTB_RAS_SIZE_def)
  ultimately show ?thesis using init by blast
qed

theorem ras_index_in_range_witness:
  "wf_state initialize_btb \<and>
   (\<exists>a s'. pop_basic_btb_ras initialize_btb = Inr (a, s') \<and> basic_btb_ras_index s' = 63) \<and>
   wf_state (initialize_btb\<lparr>basic_btb_ras_index := 63\<rparr>) \<and>
   (\<exists>s'. push_basic_btb_ras (initialize_btb\<lparr>basic_btb_ras_index := 63\<rparr>) 4096 = Inr s' \<and>
         basic_btb_ras_index s' = 0)"
proof -
  have w1: "wf_state initialize_btb" by (rule wf_state_initialize_btb)
  have w2: "wf_state (initialize_btb\<lparr>basic_btb_ras_index := 63\<rparr>)"
    by (simp add: wf_state_def initialize_btb_def BASIC_BTB_RAS_SIZE_def)
  have i1: "basic_btb_ras_index initialize_btb = 0" by (simp add: initialize_btb_def)
  from ras_index_in_range [OF w1, of 0]
  have "\<exists>a s'. pop_basic_btb_ras initialize_btb = Inr (a, s') \<and> basic_btb_ras_index s' = 63"
    by (auto simp: i1 BASIC_BTB_RAS_SIZE_def)
  moreover from ras_index_in_range [OF w2, of 4096]
  have "\<exists>s'. push_basic_btb_ras (initialize_btb\<lparr>basic_btb_ras_index := 63\<rparr>) 4096 = Inr s' \<and>
         basic_btb_ras_index s' = 0"
    by (auto simp: BASIC_BTB_RAS_SIZE_def)
  ultimately show ?thesis using w1 w2 by blast
qed

text \<open>
  C8: from any well-formed RAS state, pushing \<open>BASIC_BTB_RAS_SIZE + 1\<close> addresses leaves
  \<open>peek\<close> returning the address pushed last, and \<open>BASIC_BTB_RAS_SIZE\<close> pops then return
  the last \<open>BASIC_BTB_RAS_SIZE\<close> pushed addresses, most recent first. (The addresses need
  not even be distinct.)
\<close>

theorem ras_wraparound:
  assumes "wf_state s" and "length xs = nat BASIC_BTB_RAS_SIZE + 1"
  shows "\<exists>s1 s2. pushes s xs = Inr s1 \<and>
           peek_basic_btb_ras s1 = Inr (last xs) \<and>
           pops s1 (nat BASIC_BTB_RAS_SIZE) = Inr (rev (tl xs), s2)"
proof -
  from assms have len: "length xs = 65" by (simp add: BASIC_BTB_RAS_SIZE_def)
  then have ne: "xs \<noteq> []" by auto
  from pushes_ras_view [OF assms(1), of xs] len obtain s1 where
    a: "pushes s xs = Inr s1" and wf1: "wf_state s1"
    and v: "ras_view s1 64 = take 64 (rev xs)" by auto
  from pops_ras_view [OF wf1, of 64] obtain s2 where
    b: "pops s1 64 = Inr (ras_view s1 64, s2)" by auto
  have "rev xs = rev (tl xs) @ [hd xs]"
    using ne by (cases xs) simp_all
  moreover have "length (rev (tl xs)) = 64" using len by simp
  ultimately have t: "take 64 (rev xs) = rev (tl xs)" by simp
  from wf1 have r: "0 \<le> basic_btb_ras_index s1" "basic_btb_ras_index s1 < 64"
    by (simp_all add: wf_state_def BASIC_BTB_RAS_SIZE_def)
  have "ras_view s1 64 = ras_view s1 (Suc 63)" by simp
  then have "hd (ras_view s1 64) = basic_btb_ras s1 ! nat (basic_btb_ras_index s1)"
    unfolding ras_view_Suc using r by (simp add: BASIC_BTB_RAS_SIZE_def)
  moreover have "hd (take 64 (rev xs)) = last xs"
    using ne len by (simp add: hd_rev)
  ultimately have "peek_basic_btb_ras s1 = Inr (last xs)"
    using peek_basic_btb_ras_wf [OF wf1] v by simp
  with a b v t show ?thesis by (simp add: BASIC_BTB_RAS_SIZE_def)
qed

theorem ras_wraparound_witness:
  "wf_state initialize_btb \<and>
   length (map word_of_nat [1..<66] :: 64 word list) = nat BASIC_BTB_RAS_SIZE + 1 \<and>
   (\<exists>s1 s2. pushes initialize_btb (map word_of_nat [1..<66]) = Inr s1 \<and>
      peek_basic_btb_ras s1 = Inr 65 \<and>
      pops s1 (nat BASIC_BTB_RAS_SIZE) = Inr (rev (tl (map word_of_nat [1..<66])), s2))"
proof -
  have l: "length (map word_of_nat [1..<66] :: 64 word list) = nat BASIC_BTB_RAS_SIZE + 1"
    by (simp add: BASIC_BTB_RAS_SIZE_def)
  have "last (map word_of_nat [1..<66] :: 64 word list) = 65"
    by (simp add: last_map)
  then show ?thesis
    using ras_wraparound [OF wf_state_initialize_btb l] wf_state_initialize_btb l
    by (simp only: simp_thms)
qed

section \<open>Hashes and distances\<close>

lemma basic_btb_call_size_tracker_hash_mod:
  "unat (basic_btb_call_size_tracker_hash ip) = unat ip mod BASIC_BTB_CALL_INSTR_SIZE_TRACKERS"
proof -
  have "(1023 :: 64 word) = mask 10" by (simp add: mask_eq_exp_minus_1)
  then have "ip AND 1023 = take_bit 10 ip" by (simp add: take_bit_eq_mask)
  then have "unat (ip AND 1023) = take_bit 10 (unat ip)"
    by (simp add: unsigned_take_bit_eq)
  then show ?thesis
    by (simp add: basic_btb_call_size_tracker_hash_def
        BASIC_BTB_CALL_INSTR_SIZE_TRACKERS_def take_bit_eq_mod)
qed

lemma basic_btb_call_size_tracker_hash_less:
  "unat (basic_btb_call_size_tracker_hash ip) < BASIC_BTB_CALL_INSTR_SIZE_TRACKERS"
  by (simp add: basic_btb_call_size_tracker_hash_mod BASIC_BTB_CALL_INSTR_SIZE_TRACKERS_def)

lemma basic_btb_abs_addr_dist_abs:
  "int (unat (basic_btb_abs_addr_dist a b)) = \<bar>int (unat a) - int (unat b)\<bar>"
proof (cases "a > b")
  case True
  then have "b \<le> a" by simp
  then have "unat (a - b) = unat a - unat b" by (rule unat_sub)
  moreover from True have "unat b < unat a" by (simp add: word_less_nat_alt)
  ultimately have "int (unat (a - b)) = \<bar>int (unat a) - int (unat b)\<bar>"
    by arith
  with True show ?thesis by (simp only: basic_btb_abs_addr_dist_def if_True)
next
  case False
  then have le: "a \<le> b" by simp
  then have "unat (b - a) = unat b - unat a" by (rule unat_sub)
  moreover from le have "unat a \<le> unat b" by (simp add: word_le_nat_alt)
  ultimately have "int (unat (b - a)) = \<bar>int (unat a) - int (unat b)\<bar>"
    by arith
  with False show ?thesis by (simp only: basic_btb_abs_addr_dist_def if_False)
qed

lemma indirect_index_less: "indirect_index s ip < BASIC_BTB_INDIRECT_SIZE"
  by (simp add: indirect_index_def BASIC_BTB_INDIRECT_SIZE_def)

section \<open>The update, kind by kind\<close>

lemma update_btb_indirect:
  assumes "wf_state s" and "bt = BRANCH_INDIRECT \<or> bt = BRANCH_INDIRECT_CALL"
  shows "update_btb s ip branch_target taken bt current_cycle =
           Inr (s\<lparr>basic_btb_indirect :=
                   (basic_btb_indirect s)[indirect_index s ip := branch_target]\<rparr>)"
proof -
  from assms(1) have "indirect_index s ip < length (basic_btb_indirect s)"
    by (simp add: wf_state_def indirect_index_less)
  with assms(2) show ?thesis
    by (auto simp: update_btb_def Let_def)
qed

lemma update_btb_return:
  assumes "wf_state s"
  shows "\<exists>s1. pop_basic_btb_ras s = Inr (basic_btb_ras s ! nat (basic_btb_ras_index s), s1) \<and>
           wf_state s1 \<and>
           update_btb s ip branch_target taken BRANCH_RETURN current_cycle =
             Inr (let call_ip = basic_btb_ras s ! nat (basic_btb_ras_index s);
                      d = basic_btb_abs_addr_dist call_ip branch_target
                  in if d \<le> 10
                     then s1\<lparr>basic_btb_call_instr_sizes :=
                             (basic_btb_call_instr_sizes s)
                               [unat call_ip mod BASIC_BTB_CALL_INSTR_SIZE_TRACKERS := d]\<rparr>
                     else s1)"
proof -
  from pop_basic_btb_ras_wf [OF assms] obtain s1 where
    p: "pop_basic_btb_ras s = Inr (basic_btb_ras s ! nat (basic_btb_ras_index s), s1)"
    and wf1: "wf_state s1"
    and cs: "basic_btb_call_instr_sizes s1 = basic_btb_call_instr_sizes s" by blast
  from assms have len: "length (basic_btb_call_instr_sizes s) = BASIC_BTB_CALL_INSTR_SIZE_TRACKERS"
    by (simp add: wf_state_def)
  have "update_btb s ip branch_target taken BRANCH_RETURN current_cycle =
             Inr (let call_ip = basic_btb_ras s ! nat (basic_btb_ras_index s);
                      d = basic_btb_abs_addr_dist call_ip branch_target
                  in if d \<le> 10
                     then s1\<lparr>basic_btb_call_instr_sizes :=
                             (basic_btb_call_instr_sizes s)
                               [unat call_ip mod BASIC_BTB_CALL_INSTR_SIZE_TRACKERS := d]\<rparr>
                     else s1)"
    using basic_btb_call_size_tracker_hash_less
      [of "basic_btb_ras s ! nat (basic_btb_ras_index s)"]
    by (simp add: update_btb_def p Let_def len cs basic_btb_call_size_tracker_hash_mod)
  with p wf1 show ?thesis by blast
qed

section \<open>Indirect table, call sizes and history\<close>

lemma push_basic_btb_ras_frame:
  "push_basic_btb_ras s ip = Inr s' \<Longrightarrow>
     basic_btb s' = basic_btb s \<and> basic_btb_indirect s' = basic_btb_indirect s \<and>
     basic_btb_conditional_history s' = basic_btb_conditional_history s \<and>
     basic_btb_call_instr_sizes s' = basic_btb_call_instr_sizes s"
  by (auto simp: push_basic_btb_ras_def Let_def split: if_splits)

lemma pop_basic_btb_ras_frame:
  "pop_basic_btb_ras s = Inr (a, s') \<Longrightarrow>
     basic_btb s' = basic_btb s \<and> basic_btb_indirect s' = basic_btb_indirect s \<and>
     basic_btb_conditional_history s' = basic_btb_conditional_history s \<and>
     basic_btb_call_instr_sizes s' = basic_btb_call_instr_sizes s"
  by (auto simp: pop_basic_btb_ras_def Let_def split: if_splits)

lemma indirect_index_cong:
  "basic_btb_conditional_history s' = basic_btb_conditional_history s \<Longrightarrow>
     indirect_index s' ip = indirect_index s ip"
  by (simp add: indirect_index_def)

lemma btb_prediction_indirect:
  assumes "wf_state s" and "bt = BRANCH_INDIRECT \<or> bt = BRANCH_INDIRECT_CALL"
  shows "\<exists>s'. btb_prediction s ip bt current_cycle =
           Inr ((basic_btb_indirect s ! indirect_index s ip, 1), s')"
proof -
  from assms(1) have lt: "indirect_index s ip < length (basic_btb_indirect s)"
    by (simp add: wf_state_def indirect_index_less)
  from assms(2) show ?thesis
  proof
    assume "bt = BRANCH_INDIRECT"
    with lt show ?thesis by (simp add: btb_prediction_def Let_def)
  next
    assume c: "bt = BRANCH_INDIRECT_CALL"
    from push_basic_btb_ras_wf [OF assms(1), of ip] obtain s1 where
      p: "push_basic_btb_ras s ip = Inr s1"
      and f: "basic_btb_indirect s1 = basic_btb_indirect s"
             "basic_btb_conditional_history s1 = basic_btb_conditional_history s"
      by blast
    from f(2) have "indirect_index s1 ip = indirect_index s ip" by (rule indirect_index_cong)
    with c p f lt show ?thesis by (simp add: btb_prediction_def Let_def)
  qed
qed

text \<open>
  C5: an update for an INDIRECT or INDIRECT_CALL branch writes the resolved target into
  slot \<open>((ip >> 2) xor H) mod BASIC_BTB_INDIRECT_SIZE\<close> of the indirect table, where \<open>H\<close>
  is the history register, and leaves \<open>H\<close> as it is; a prediction for an INDIRECT or
  INDIRECT_CALL branch at the same address then returns that target with the
  always-taken flag set. Prediction and update use the same slot.
\<close>

theorem indirect_update_then_predict:
  assumes "wf_state s"
    and "bt = BRANCH_INDIRECT \<or> bt = BRANCH_INDIRECT_CALL"
    and "bt' = BRANCH_INDIRECT \<or> bt' = BRANCH_INDIRECT_CALL"
  shows "\<exists>s' s''.
           update_btb s ip T taken bt now = Inr s' \<and>
           basic_btb_conditional_history s' = basic_btb_conditional_history s \<and>
           basic_btb_indirect s' =
             (basic_btb_indirect s)
               [unat (drop_bit 2 ip XOR ucast (basic_btb_conditional_history s))
                  mod BASIC_BTB_INDIRECT_SIZE := T] \<and>
           unat (drop_bit 2 ip XOR ucast (basic_btb_conditional_history s))
             mod BASIC_BTB_INDIRECT_SIZE < length (basic_btb_indirect s) \<and>
           btb_prediction s' ip bt' now' = Inr ((T, 1), s'')"
proof -
  let ?s' = "s\<lparr>basic_btb_indirect := (basic_btb_indirect s)[indirect_index s ip := T]\<rparr>"
  have u: "update_btb s ip T taken bt now = Inr ?s'"
    by (rule update_btb_indirect [OF assms(1) assms(2)])
  from assms(1) have wf': "wf_state ?s'" by (simp add: wf_state_def)
  from assms(1) have lt: "indirect_index s ip < length (basic_btb_indirect s)"
    by (simp add: wf_state_def indirect_index_less)
  have ix: "indirect_index ?s' ip = indirect_index s ip" by (simp add: indirect_index_def)
  from btb_prediction_indirect [OF wf' assms(3), of ip now'] obtain s'' where
    "btb_prediction ?s' ip bt' now' = Inr ((basic_btb_indirect ?s' ! indirect_index ?s' ip, 1), s'')"
    by blast
  with lt have p: "btb_prediction ?s' ip bt' now' = Inr ((T, 1), s'')"
    by (simp add: ix)
  from lt have "unat (drop_bit 2 ip XOR ucast (basic_btb_conditional_history s))
             mod BASIC_BTB_INDIRECT_SIZE < length (basic_btb_indirect s)"
    by (simp add: indirect_index_def)
  with u p show ?thesis by (auto simp: indirect_index_def)
qed

theorem indirect_update_then_predict_witness:
  "wf_state initialize_btb \<and>
   (\<exists>s' s''. update_btb initialize_btb 0x1000 0x2000 1 BRANCH_INDIRECT 5 = Inr s' \<and>
      basic_btb_indirect s' = (basic_btb_indirect initialize_btb)[1024 := 0x2000] \<and>
      btb_prediction s' 0x1000 BRANCH_INDIRECT_CALL 6 = Inr ((0x2000, 1), s''))"
proof -
  have h: "basic_btb_conditional_history initialize_btb = 0"
    by (simp add: initialize_btb_def)
  have "unat (drop_bit 2 (0x1000 :: 64 word) XOR ucast (0 :: 12 word))
          mod BASIC_BTB_INDIRECT_SIZE = 1024"
    by (simp add: BASIC_BTB_INDIRECT_SIZE_def drop_bit_eq_div)
  with indirect_update_then_predict
    [OF wf_state_initialize_btb, of BRANCH_INDIRECT BRANCH_INDIRECT_CALL "0x1000" "0x2000" 1 5 6]
  show ?thesis using wf_state_initialize_btb by (auto simp: h)
qed

text \<open>
  C6: an update for a RETURN pops the RAS: the call-site address is the slot at the
  current index (what \<open>peek\<close> returns), that slot is zeroed and the index retreats by
  one, wrapping from 0 to \<open>BASIC_BTB_RAS_SIZE - 1\<close>. The distance is the absolute
  difference of the call-site address and the resolved target; the call-size slot
  \<open>call_ip mod BASIC_BTB_CALL_INSTR_SIZE_TRACKERS\<close> is overwritten with the distance
  exactly when the distance is at most 10, and the table is unchanged otherwise. The
  target cache, the indirect table and the history register are not touched.
\<close>

theorem return_update_recalibrates:
  assumes "wf_state s"
  shows "\<exists>call_ip s1 s'.
           call_ip = basic_btb_ras s ! nat (basic_btb_ras_index s) \<and>
           peek_basic_btb_ras s = Inr call_ip \<and>
           pop_basic_btb_ras s = Inr (call_ip, s1) \<and>
           update_btb s ip branch_target taken BRANCH_RETURN now = Inr s' \<and>
           basic_btb_ras s' = basic_btb_ras s1 \<and>
           basic_btb_ras_index s' = basic_btb_ras_index s1 \<and>
           basic_btb_ras s' = (basic_btb_ras s)[nat (basic_btb_ras_index s) := 0] \<and>
           basic_btb_ras_index s' =
             (if basic_btb_ras_index s = 0 then BASIC_BTB_RAS_SIZE - 1
              else basic_btb_ras_index s - 1) \<and>
           basic_btb s' = basic_btb s \<and>
           basic_btb_indirect s' = basic_btb_indirect s \<and>
           basic_btb_conditional_history s' = basic_btb_conditional_history s \<and>
           int (unat (basic_btb_abs_addr_dist call_ip branch_target)) =
             \<bar>int (unat call_ip) - int (unat branch_target)\<bar> \<and>
           unat call_ip mod BASIC_BTB_CALL_INSTR_SIZE_TRACKERS
             < length (basic_btb_call_instr_sizes s) \<and>
           basic_btb_call_instr_sizes s' =
             (if unat (basic_btb_abs_addr_dist call_ip branch_target) \<le> 10
              then (basic_btb_call_instr_sizes s)
                     [unat call_ip mod BASIC_BTB_CALL_INSTR_SIZE_TRACKERS :=
                        basic_btb_abs_addr_dist call_ip branch_target]
              else basic_btb_call_instr_sizes s)"
proof -
  let ?i = "basic_btb_ras_index s"
  let ?c = "basic_btb_ras s ! nat ?i"
  let ?d = "basic_btb_abs_addr_dist ?c branch_target"
  from assms have r: "0 \<le> ?i" "?i < 64"
    by (simp_all add: wf_state_def BASIC_BTB_RAS_SIZE_def)
  have qi: "(?i - 1) mod BASIC_BTB_RAS_SIZE =
              (if ?i = 0 then BASIC_BTB_RAS_SIZE - 1 else ?i - 1)"
    using r by (simp add: BASIC_BTB_RAS_SIZE_def)
  from update_btb_return [OF assms, of ip branch_target taken now] obtain s1 where
    p: "pop_basic_btb_ras s = Inr (?c, s1)"
    and u: "update_btb s ip branch_target taken BRANCH_RETURN now =
             Inr (if ?d \<le> 10
                  then s1\<lparr>basic_btb_call_instr_sizes :=
                          (basic_btb_call_instr_sizes s)
                            [unat ?c mod BASIC_BTB_CALL_INSTR_SIZE_TRACKERS := ?d]\<rparr>
                  else s1)"
    by (auto simp: Let_def)
  from pop_basic_btb_ras_wf [OF assms] p
  have s1: "basic_btb_ras_index s1 = (if ?i = 0 then BASIC_BTB_RAS_SIZE - 1 else ?i - 1)"
    "basic_btb_ras s1 = (basic_btb_ras s)[nat ?i := 0]"
    "basic_btb s1 = basic_btb s" "basic_btb_indirect s1 = basic_btb_indirect s"
    "basic_btb_conditional_history s1 = basic_btb_conditional_history s"
    "basic_btb_call_instr_sizes s1 = basic_btb_call_instr_sizes s"
    unfolding qi by auto
  have pk: "peek_basic_btb_ras s = Inr ?c" by (rule peek_basic_btb_ras_wf [OF assms])
  have le: "?d \<le> 10 \<longleftrightarrow> unat ?d \<le> 10" by (simp add: word_le_nat_alt)
  from assms have lt: "unat ?c mod BASIC_BTB_CALL_INSTR_SIZE_TRACKERS
             < length (basic_btb_call_instr_sizes s)"
    by (simp add: wf_state_def BASIC_BTB_CALL_INSTR_SIZE_TRACKERS_def)
  let ?s' = "if ?d \<le> 10
             then s1\<lparr>basic_btb_call_instr_sizes :=
                     (basic_btb_call_instr_sizes s)
                       [unat ?c mod BASIC_BTB_CALL_INSTR_SIZE_TRACKERS := ?d]\<rparr>
             else s1"
  have f: "basic_btb_ras ?s' = basic_btb_ras s1" "basic_btb_ras_index ?s' = basic_btb_ras_index s1"
    "basic_btb ?s' = basic_btb s1" "basic_btb_indirect ?s' = basic_btb_indirect s1"
    "basic_btb_conditional_history ?s' = basic_btb_conditional_history s1"
    by simp_all
  have cs: "basic_btb_call_instr_sizes ?s' =
             (if unat ?d \<le> 10
              then (basic_btb_call_instr_sizes s)
                     [unat ?c mod BASIC_BTB_CALL_INSTR_SIZE_TRACKERS := ?d]
              else basic_btb_call_instr_sizes s)"
    by (simp add: le s1(6))
  show ?thesis
    apply (rule exI [of _ ?c], rule exI [of _ s1], rule exI [of _ ?s'])
    using pk p u f s1(1-5) cs lt basic_btb_abs_addr_dist_abs [of ?c branch_target]
    by (simp only: simp_thms)
qed

theorem return_update_recalibrates_witness:
  "wf_state (initialize_btb\<lparr>basic_btb_ras := (basic_btb_ras initialize_btb)[0 := 0x1000]\<rparr>) \<and>
   (\<exists>s1 s'. pop_basic_btb_ras
               (initialize_btb\<lparr>basic_btb_ras := (basic_btb_ras initialize_btb)[0 := 0x1000]\<rparr>)
             = Inr (0x1000, s1) \<and>
      update_btb (initialize_btb\<lparr>basic_btb_ras := (basic_btb_ras initialize_btb)[0 := 0x1000]\<rparr>)
        0x3000 0x1005 1 BRANCH_RETURN 7 = Inr s' \<and>
      basic_btb_ras s' = basic_btb_ras initialize_btb \<and>
      basic_btb_ras_index s' = 63 \<and>
      basic_btb_call_instr_sizes s' = (basic_btb_call_instr_sizes initialize_btb)[0 := 5])"
proof -
  let ?s = "initialize_btb\<lparr>basic_btb_ras := (basic_btb_ras initialize_btb)[0 := 0x1000]\<rparr>"
  have wf: "wf_state ?s"
    using wf_state_initialize_btb by (simp add: wf_state_def)
  have top: "(basic_btb_ras initialize_btb)[0 := 0x1000] ! 0 = 0x1000"
    by (simp add: initialize_btb_def BASIC_BTB_RAS_SIZE_def)
  have i: "basic_btb_ras_index initialize_btb = 0" by (simp add: initialize_btb_def)
  have z: "(basic_btb_ras initialize_btb)[0 := 0] = basic_btb_ras initialize_btb"
    by (simp add: initialize_btb_def BASIC_BTB_RAS_SIZE_def list_update_same_conv)
  have d: "basic_btb_abs_addr_dist 0x1000 0x1005 = 5"
    by (simp add: basic_btb_abs_addr_dist_def)
  have m: "(4096 :: nat) mod BASIC_BTB_CALL_INSTR_SIZE_TRACKERS = 0"
    by (simp add: BASIC_BTB_CALL_INSTR_SIZE_TRACKERS_def)
  from return_update_recalibrates [OF wf, of "0x3000" "0x1005" 1 7]
  obtain call_ip s1 s' where
    "call_ip = basic_btb_ras ?s ! nat (basic_btb_ras_index ?s)"
    "pop_basic_btb_ras ?s = Inr (call_ip, s1)"
    "update_btb ?s 0x3000 0x1005 1 BRANCH_RETURN 7 = Inr s'"
    "basic_btb_ras s' = (basic_btb_ras ?s)[nat (basic_btb_ras_index ?s) := 0]"
    "basic_btb_ras_index s' =
       (if basic_btb_ras_index ?s = 0 then BASIC_BTB_RAS_SIZE - 1
        else basic_btb_ras_index ?s - 1)"
    "basic_btb_call_instr_sizes s' =
             (if unat (basic_btb_abs_addr_dist call_ip 0x1005) \<le> 10
              then (basic_btb_call_instr_sizes ?s)
                     [unat call_ip mod BASIC_BTB_CALL_INSTR_SIZE_TRACKERS :=
                        basic_btb_abs_addr_dist call_ip 0x1005]
              else basic_btb_call_instr_sizes ?s)"
    by blast
  then have "pop_basic_btb_ras ?s = Inr (0x1000, s1)"
    "update_btb ?s 0x3000 0x1005 1 BRANCH_RETURN 7 = Inr s'"
    "basic_btb_ras s' = basic_btb_ras initialize_btb"
    "basic_btb_ras_index s' = 63"
    "basic_btb_call_instr_sizes s' = (basic_btb_call_instr_sizes initialize_btb)[0 := 5]"
    by (simp_all add: top z i d m BASIC_BTB_RAS_SIZE_def)
  with wf show ?thesis by blast
qed

lemma bitset_set0_shift_bit:
  "bit (bitset_set0 (push_bit 1 h) b) n \<longleftrightarrow>
     (if n = 0 then b else n < 12 \<and> bit h (n - 1))"
proof -
  have "bit (bitset_set0 (push_bit 1 h) b) n \<longleftrightarrow>
          (if n = 0 then b else bit (push_bit 1 h) n)"
    by (cases b; cases n)
       (simp_all only: bitset_set0_def if_True if_False bit_set_bit_iff bit_unset_bit_iff
          bit_push_bit_iff possible_bit_word, simp_all)
  moreover have "bit (push_bit 1 h) n \<longleftrightarrow> n < 12 \<and> bit h (n - 1)" if "n \<noteq> 0"
    using that by (simp only: bit_push_bit_iff possible_bit_word) auto
  ultimately show ?thesis by simp
qed

lemma update_btb_history:
  "update_btb s ip branch_target taken bt now = Inr s' \<Longrightarrow>
     basic_btb_conditional_history s' =
       (if bt = BRANCH_CONDITIONAL
        then bitset_set0 (push_bit 1 (basic_btb_conditional_history s)) (taken \<noteq> 0)
        else basic_btb_conditional_history s)"
proof (cases bt)
  case BRANCH_RETURN
  assume "update_btb s ip branch_target taken bt now = Inr s'"
  with BRANCH_RETURN show ?thesis
    by (auto simp: update_btb_def Let_def split: sum.splits prod.splits if_splits
        dest: pop_basic_btb_ras_frame)
qed (auto simp: update_btb_def Let_def split: if_splits)

lemma btb_prediction_history:
  "btb_prediction s ip bt now = Inr (r, s') \<Longrightarrow>
     basic_btb_conditional_history s' = basic_btb_conditional_history s"
  by (cases bt)
     (auto simp: btb_prediction_def Let_def split: sum.splits if_splits
        dest: push_basic_btb_ras_frame)

text \<open>
  C7: an update that returns changes the conditional-history register only for the
  CONDITIONAL kind; then the register is shifted left by one bit (the top bit of the 12
  falls out) and bit 0 becomes the resolved outcome. Updates of every other kind and all
  predictions leave the register unchanged.
\<close>

theorem history_only_conditional_update:
  assumes "update_btb s ip branch_target taken bt now = Inr s'"
    and "btb_prediction s ip' bt' now' = Inr (r, s'')"
  shows "basic_btb_conditional_history s'' = basic_btb_conditional_history s \<and>
         basic_btb_conditional_history s' =
           (if bt = BRANCH_CONDITIONAL
            then bitset_set0 (push_bit 1 (basic_btb_conditional_history s)) (taken \<noteq> 0)
            else basic_btb_conditional_history s) \<and>
         (\<forall>n. bit (bitset_set0 (push_bit 1 (basic_btb_conditional_history s)) (taken \<noteq> 0)) n
               = (if n = 0 then taken \<noteq> 0
                  else n < 12 \<and> bit (basic_btb_conditional_history s) (n - 1)))"
  using update_btb_history [OF assms(1)] btb_prediction_history [OF assms(2)]
    bitset_set0_shift_bit [of "basic_btb_conditional_history s" "taken \<noteq> 0"]
  by simp

section \<open>The target cache\<close>

lemma find_if_tag_eqI:
  assumes "first \<le> j" and "j < first + n" and "ip_tag (arr ! j) = ip"
    and "\<And>k. first \<le> k \<Longrightarrow> k < j \<Longrightarrow> ip_tag (arr ! k) \<noteq> ip"
  shows "find_if_tag arr ip first n = j"
proof -
  let ?f = "find_if_tag arr ip first n"
  have b: "first \<le> ?f" "?f \<le> first + n"
    using find_if_tag_bounds [of first arr ip n] by simp_all
  have "\<not> j < ?f"
    using find_if_tag_first [OF assms(1), of arr ip n] assms(3) by blast
  then have le: "?f \<le> j" by simp
  with assms(2) have "?f \<noteq> first + n" by simp
  then have "ip_tag (arr ! ?f) = ip" by (rule find_if_tag_hit)
  with assms(4) [OF b(1)] have "\<not> ?f < j" by blast
  with le show ?thesis by simp
qed

lemma btb_set_range:
  "btb_set_begin ip < btb_set_end ip" "btb_set_end ip = btb_set_begin ip + BASIC_BTB_WAYS"
  by (simp_all add: btb_set_end_def BASIC_BTB_WAYS_def)

lemma wf_state_set_end: "wf_state s \<Longrightarrow> btb_set_end ip \<le> length (basic_btb s)"
  using btb_set_end_le [of ip] by (simp add: wf_state_def)

lemma update_btb_slot_allocates:
  assumes "update_btb_allocates arr ip branch_target taken"
  shows "btb_set_begin ip \<le> update_btb_slot arr ip branch_target taken"
    and "update_btb_slot arr ip branch_target taken < btb_set_end ip"
    and "update_btb_slot arr ip branch_target taken =
           min_element_lru arr (btb_set_begin ip) BASIC_BTB_WAYS"
  using assms min_element_lru_range [of BASIC_BTB_WAYS "btb_set_begin ip" arr]
  by (simp_all add: update_btb_slot_def btb_set_end_def BASIC_BTB_WAYS_def)

lemma update_btb_slot_hit:
  assumes "find_if_tag arr ip (btb_set_begin ip) BASIC_BTB_WAYS \<noteq> btb_set_end ip"
  shows "update_btb_slot arr ip branch_target taken =
           find_if_tag arr ip (btb_set_begin ip) BASIC_BTB_WAYS"
    and "\<not> update_btb_allocates arr ip branch_target taken"
    and "btb_set_begin ip \<le> find_if_tag arr ip (btb_set_begin ip) BASIC_BTB_WAYS"
    and "find_if_tag arr ip (btb_set_begin ip) BASIC_BTB_WAYS < btb_set_end ip"
    and "ip_tag (arr ! find_if_tag arr ip (btb_set_begin ip) BASIC_BTB_WAYS) = ip"
proof -
  from assms show "\<not> update_btb_allocates arr ip branch_target taken"
    by (simp add: update_btb_allocates_def)
  then show "update_btb_slot arr ip branch_target taken =
           find_if_tag arr ip (btb_set_begin ip) BASIC_BTB_WAYS"
    by (simp add: update_btb_slot_def)
  show "btb_set_begin ip \<le> find_if_tag arr ip (btb_set_begin ip) BASIC_BTB_WAYS"
    using find_if_tag_bounds [of "btb_set_begin ip" arr ip BASIC_BTB_WAYS] by simp
  show "find_if_tag arr ip (btb_set_begin ip) BASIC_BTB_WAYS < btb_set_end ip"
    using find_if_tag_bounds [of "btb_set_begin ip" arr ip BASIC_BTB_WAYS] assms
    by (simp add: btb_set_end_def)
  show "ip_tag (arr ! find_if_tag arr ip (btb_set_begin ip) BASIC_BTB_WAYS) = ip"
    using assms by (intro find_if_tag_hit) (simp add: btb_set_end_def)
qed

text \<open>
  On a miss that does not allocate, \<^verbatim>\<open>btb_entry\<close> is still \<^verbatim>\<open>set_end\<close> when it is
  dereferenced.
\<close>

lemma update_btb_slot_stray:
  assumes "find_if_tag arr ip (btb_set_begin ip) BASIC_BTB_WAYS = btb_set_end ip"
    and "branch_target = 0 \<or> taken = 0"
  shows "update_btb_slot arr ip branch_target taken = btb_set_end ip"
  using assms by (auto simp: update_btb_slot_def update_btb_allocates_def)

lemma update_btb_cache:
  assumes "wf_state s" and "cache_kind bt"
  shows "update_btb s ip branch_target taken bt now =
           (let arr = basic_btb s;
                slot = update_btb_slot arr ip branch_target taken
            in if slot < length arr
               then Inr ((if bt = BRANCH_CONDITIONAL
                          then s\<lparr>basic_btb_conditional_history :=
                                   bitset_set0 (push_bit 1 (basic_btb_conditional_history s))
                                     (taken \<noteq> 0)\<rparr>
                          else s)
                         \<lparr>basic_btb := arr
                            [slot := \<lparr>ip_tag = ip, target = branch_target,
                               always_taken =
                                 ((update_btb_allocates arr ip branch_target taken \<or>
                                   always_taken (arr ! slot)) \<and> taken \<noteq> 0),
                               last_cycle_used = now\<rparr>]\<rparr>)
               else Inl OutOfBounds)"
  using assms wf_state_set_end [OF assms(1), of ip]
  by (cases bt) (simp_all add: update_btb_def cache_kind_def Let_def)

lemma btb_prediction_cache:
  assumes "wf_state s" and "cache_kind bt"
  shows "\<exists>s1. (if bt = BRANCH_DIRECT_CALL then push_basic_btb_ras s ip else Inr s) = Inr s1 \<and>
           wf_state s1 \<and> basic_btb s1 = basic_btb s \<and>
           btb_prediction s ip bt now =
             (let j = find_if_tag (basic_btb s) ip (btb_set_begin ip) BASIC_BTB_WAYS
              in if j = btb_set_end ip then Inr ((0, 1), s1)
                 else Inr ((target (basic_btb s ! j),
                            if always_taken (basic_btb s ! j) then 1 else 0),
                           s1\<lparr>basic_btb := (basic_btb s)
                                [j := (basic_btb s ! j)\<lparr>last_cycle_used := now\<rparr>]\<rparr>))"
proof (cases "bt = BRANCH_DIRECT_CALL")
  case True
  from push_basic_btb_ras_wf [OF assms(1), of ip] obtain s1 where
    p: "push_basic_btb_ras s ip = Inr s1" and wf1: "wf_state s1"
    and b: "basic_btb s1 = basic_btb s" by blast
  from wf_state_set_end [OF wf1, of ip] True p b wf1 show ?thesis
    by (simp add: btb_prediction_def Let_def)
next
  case False
  with assms wf_state_set_end [OF assms(1), of ip] show ?thesis
    by (cases bt) (simp_all add: btb_prediction_def cache_kind_def Let_def)
qed

text \<open>
  From a well-formed state the update leaves the arrays in exactly one situation: the
  kind is routed to the cache, the lookup misses without allocating, and the set is the
  last one, so that \<^verbatim>\<open>set_end\<close> is the end of the array.
\<close>

lemma update_btb_undefined_iff:
  assumes "wf_state s"
  shows "update_btb s ip branch_target taken bt now = Inl OutOfBounds \<longleftrightarrow>
           cache_kind bt \<and>
           find_if_tag (basic_btb s) ip (btb_set_begin ip) BASIC_BTB_WAYS = btb_set_end ip \<and>
           (branch_target = 0 \<or> taken = 0) \<and>
           btb_set_end ip = length (basic_btb s)"
proof (cases "cache_kind bt")
  case False
  then consider "bt = BRANCH_RETURN" | "bt = BRANCH_INDIRECT \<or> bt = BRANCH_INDIRECT_CALL"
    by (auto simp: cache_kind_def)
  then have "\<exists>s'. update_btb s ip branch_target taken bt now = Inr s'"
  proof cases
    case 1
    with update_btb_return [OF assms, of ip branch_target taken now] show ?thesis by auto
  next
    case 2
    with update_btb_indirect [OF assms 2, of ip branch_target taken now] show ?thesis by simp
  qed
  with False show ?thesis by auto
next
  case True
  let ?arr = "basic_btb s"
  let ?f = "find_if_tag ?arr ip (btb_set_begin ip) BASIC_BTB_WAYS"
  let ?w = "update_btb_slot ?arr ip branch_target taken"
  have e: "update_btb s ip branch_target taken bt now = Inl OutOfBounds \<longleftrightarrow> \<not> ?w < length ?arr"
    by (simp add: update_btb_cache [OF assms True] Let_def)
  have le: "btb_set_end ip \<le> length ?arr" by (rule wf_state_set_end [OF assms])
  show ?thesis
  proof (cases "?f = btb_set_end ip")
    case hit: False
    from update_btb_slot_hit(1) [OF hit, of branch_target taken] update_btb_slot_hit(4) [OF hit] le
    have "?w < length ?arr" by simp
    with e hit show ?thesis by simp
  next
    case miss: True
    show ?thesis
    proof (cases "branch_target = 0 \<or> taken = 0")
      case stray: True
      from update_btb_slot_stray [OF miss stray] have "?w = btb_set_end ip" .
      with e le miss stray True show ?thesis by auto
    next
      case False
      with miss have "update_btb_allocates ?arr ip branch_target taken"
        by (simp add: update_btb_allocates_def)
      from update_btb_slot_allocates(2) [OF this] le have "?w < length ?arr" by simp
      with e False show ?thesis by simp
    qed
  qed
qed

section \<open>The state after initialisation\<close>

lemma initialize_btb_length: "length (basic_btb initialize_btb) = 8192"
  by (simp add: initialize_btb_def BASIC_BTB_SETS_def BASIC_BTB_WAYS_def)

lemma initialize_btb_nth:
  "k < 8192 \<Longrightarrow> basic_btb initialize_btb ! k =
     \<lparr>ip_tag = 0, target = 0, always_taken = False, last_cycle_used = 0\<rparr>"
  by (simp add: initialize_btb_def BASIC_BTB_SETS_def BASIC_BTB_WAYS_def)

lemma initialize_btb_miss:
  assumes "ip \<noteq> 0"
  shows "find_if_tag (basic_btb initialize_btb) ip (btb_set_begin ip) BASIC_BTB_WAYS
           = btb_set_end ip"
proof -
  have "ip_tag (basic_btb initialize_btb ! k) \<noteq> ip"
    if "k < btb_set_begin ip + BASIC_BTB_WAYS" for k
  proof -
    from that btb_set_end_le [of ip] have "k < 8192"
      by (simp add: btb_set_end_def BASIC_BTB_SETS_def BASIC_BTB_WAYS_def)
    then show ?thesis using assms by (simp add: initialize_btb_nth)
  qed
  then show ?thesis
    unfolding btb_set_end_def find_if_tag_miss_iff by simp
qed

text \<open>
  C1 (evaluation at the failing inputs): on the initial state, an update for a
  not-taken conditional branch at \<open>0xFFC\<close> misses in the last set (positions 8184 to
  8191); the position assigned through is 8192, one past the end of the array. The
  same update at \<open>0x1000\<close> misses in set 0 (positions 0 to 7) and overwrites position 8,
  the first entry of set 1.
\<close>

theorem update_btb_miss_not_taken_writes_set_end:
  "btb_set_begin 0xFFC = 8184 \<and> btb_set_end 0xFFC = 8192 \<and>
   length (basic_btb initialize_btb) = 8192 \<and>
   update_btb_slot (basic_btb initialize_btb) 0xFFC 0 0 = 8192 \<and>
   update_btb initialize_btb 0xFFC 0 0 BRANCH_CONDITIONAL 5 = Inl OutOfBounds \<and>
   btb_set_begin 0x1000 = 0 \<and> btb_set_end 0x1000 = 8 \<and>
   update_btb_slot (basic_btb initialize_btb) 0x1000 0 0 = 8 \<and>
   update_btb initialize_btb 0x1000 0 0 BRANCH_CONDITIONAL 5 =
     Inr (initialize_btb\<lparr>basic_btb := (basic_btb initialize_btb)
            [8 := \<lparr>ip_tag = 0x1000, target = 0, always_taken = False, last_cycle_used = 5\<rparr>]\<rparr>)"
proof -
  have b1: "btb_set_begin 0xFFC = 8184" and e1: "btb_set_end 0xFFC = 8192"
    and b2: "btb_set_begin 0x1000 = 0" and e2: "btb_set_end 0x1000 = 8"
    by (simp_all add: btb_set_end_def btb_set_begin_def BASIC_BTB_SETS_def BASIC_BTB_WAYS_def
        drop_bit_eq_div)
  have m1: "find_if_tag (basic_btb initialize_btb) 0xFFC (btb_set_begin 0xFFC) BASIC_BTB_WAYS
              = btb_set_end 0xFFC"
    by (rule initialize_btb_miss) simp
  have m2: "find_if_tag (basic_btb initialize_btb) 0x1000 (btb_set_begin 0x1000) BASIC_BTB_WAYS
              = btb_set_end 0x1000"
    by (rule initialize_btb_miss) simp
  have s1: "update_btb_slot (basic_btb initialize_btb) 0xFFC 0 0 = 8192"
    using update_btb_slot_stray [OF m1, of 0 0] by (simp add: e1)
  have s2: "update_btb_slot (basic_btb initialize_btb) 0x1000 0 0 = 8"
    using update_btb_slot_stray [OF m2, of 0 0] by (simp add: e2)
  have k: "cache_kind BRANCH_CONDITIONAL" by (simp add: cache_kind_def)
  have h: "initialize_btb\<lparr>basic_btb_conditional_history :=
               bitset_set0 (basic_btb_conditional_history initialize_btb * 2) False\<rparr>
             = initialize_btb"
    by (simp add: initialize_btb_def bitset_set0_def)
  have a: "\<not> update_btb_allocates (basic_btb initialize_btb) 0x1000 0 0"
    by (simp add: update_btb_allocates_def)
  have u1: "update_btb initialize_btb 0xFFC 0 0 BRANCH_CONDITIONAL 5 = Inl OutOfBounds"
    by (simp add: update_btb_cache [OF wf_state_initialize_btb k] s1 initialize_btb_length)
  have u2: "update_btb initialize_btb 0x1000 0 0 BRANCH_CONDITIONAL 5 =
     Inr (initialize_btb\<lparr>basic_btb := (basic_btb initialize_btb)
            [8 := \<lparr>ip_tag = 0x1000, target = 0, always_taken = False, last_cycle_used = 5\<rparr>]\<rparr>)"
    by (simp add: update_btb_cache [OF wf_state_initialize_btb k] s2 initialize_btb_length h a)
  from b1 e1 b2 e2 s1 s2 u1 u2 initialize_btb_length show ?thesis by simp
qed

text \<open>
  C2 (as stated, refuted): on the initial state a prediction for the CONDITIONAL branch
  at \<open>0x1000\<close> misses, and the pair returned is \<open>(0, 1)\<close>: the hint is true.
\<close>

theorem btb_prediction_conditional_miss_counterexample:
  "find_if_tag (basic_btb initialize_btb) 0x1000 (btb_set_begin 0x1000) BASIC_BTB_WAYS
     = btb_set_end 0x1000 \<and>
   btb_prediction initialize_btb 0x1000 BRANCH_CONDITIONAL 5 = Inr ((0, 1), initialize_btb) \<and>
   btb_prediction initialize_btb 0x1000 BRANCH_CONDITIONAL 5 \<noteq> Inr ((0, 0), initialize_btb)"
proof -
  have m: "find_if_tag (basic_btb initialize_btb) 0x1000 (btb_set_begin 0x1000) BASIC_BTB_WAYS
              = btb_set_end 0x1000"
    by (rule initialize_btb_miss) simp
  have k: "cache_kind BRANCH_CONDITIONAL" by (simp add: cache_kind_def)
  from btb_prediction_cache [OF wf_state_initialize_btb k, of "0x1000" 5]
  have "btb_prediction initialize_btb 0x1000 BRANCH_CONDITIONAL 5 = Inr ((0, 1), initialize_btb)"
    by (simp add: m Let_def)
  with m show ?thesis by simp
qed

text \<open>
  C2 (amended): for every branch kind routed to the target cache, CONDITIONAL included,
  a prediction whose address misses in the selected set returns \<open>(0, 1)\<close>: target zero
  and the hint true. The target cache is left as it was.
\<close>

theorem btb_prediction_miss:
  assumes "wf_state s" and "cache_kind bt"
    and "find_if_tag (basic_btb s) ip (btb_set_begin ip) BASIC_BTB_WAYS = btb_set_end ip"
  shows "\<exists>s'. btb_prediction s ip bt now = Inr ((0, 1), s') \<and> basic_btb s' = basic_btb s"
  using btb_prediction_cache [OF assms(1) assms(2), of ip now] assms(3)
  by (auto simp: Let_def)

theorem btb_prediction_miss_witness:
  "wf_state initialize_btb \<and> cache_kind BRANCH_CONDITIONAL \<and>
   find_if_tag (basic_btb initialize_btb) 0x1000 (btb_set_begin 0x1000) BASIC_BTB_WAYS
     = btb_set_end 0x1000 \<and>
   (\<exists>s'. btb_prediction initialize_btb 0x1000 BRANCH_CONDITIONAL 5 = Inr ((0, 1), s'))"
proof -
  have m: "find_if_tag (basic_btb initialize_btb) 0x1000 (btb_set_begin 0x1000) BASIC_BTB_WAYS
              = btb_set_end 0x1000"
    by (rule initialize_btb_miss) simp
  have k: "cache_kind BRANCH_CONDITIONAL" by (simp add: cache_kind_def)
  from btb_prediction_miss [OF wf_state_initialize_btb k m, of 5]
  show ?thesis using wf_state_initialize_btb k m by blast
qed

lemma initialize_btb_victim:
  "min_element_lru (basic_btb initialize_btb) (btb_set_begin ip) BASIC_BTB_WAYS
     = btb_set_begin ip"
proof -
  let ?m = "min_element_lru (basic_btb initialize_btb) (btb_set_begin ip) BASIC_BTB_WAYS"
  have w: "0 < BASIC_BTB_WAYS" by (simp add: BASIC_BTB_WAYS_def)
  from min_element_lru_range [OF w, of "btb_set_begin ip" "basic_btb initialize_btb"]
  have r: "btb_set_begin ip \<le> ?m" "?m < btb_set_end ip"
    by (simp_all add: btb_set_end_def)
  from r(2) btb_set_end_le [of ip] have lt: "?m < 8192"
    by (simp add: BASIC_BTB_SETS_def BASIC_BTB_WAYS_def)
  have "\<not> btb_set_begin ip < ?m"
  proof
    assume a: "btb_set_begin ip < ?m"
    with lt have "btb_set_begin ip < 8192" by simp
    with min_element_lru_first [OF w le_refl a] lt show False
      by (simp add: initialize_btb_nth)
  qed
  with r(1) show ?thesis by simp
qed

lemma initialize_btb_allocate:
  assumes "ip \<noteq> 0" and "branch_target \<noteq> 0" and "taken \<noteq> 0" and "cache_kind bt"
  shows "update_btb initialize_btb ip branch_target taken bt now =
           Inr ((if bt = BRANCH_CONDITIONAL
                 then initialize_btb\<lparr>basic_btb_conditional_history := 1\<rparr>
                 else initialize_btb)
                \<lparr>basic_btb := (basic_btb initialize_btb)
                   [btb_set_begin ip := \<lparr>ip_tag = ip, target = branch_target,
                      always_taken = True, last_cycle_used = now\<rparr>]\<rparr>)"
proof -
  have a: "update_btb_allocates (basic_btb initialize_btb) ip branch_target taken"
    using assms initialize_btb_miss [OF assms(1)] by (simp add: update_btb_allocates_def)
  then have sl: "update_btb_slot (basic_btb initialize_btb) ip branch_target taken
                   = btb_set_begin ip"
    by (simp add: update_btb_slot_def initialize_btb_victim)
  have lt: "btb_set_begin ip < length (basic_btb initialize_btb)"
    using btb_set_range(1) [of ip] wf_state_set_end [OF wf_state_initialize_btb, of ip]
    by simp
  have h: "bitset_set0 (basic_btb_conditional_history initialize_btb * 2) True = 1"
    by (simp add: initialize_btb_def bitset_set0_def)
  show ?thesis
    using lt assms(3)
    by (simp add: update_btb_cache [OF wf_state_initialize_btb assms(4)] sl a h Let_def)
qed

theorem history_only_conditional_update_witness:
  "\<exists>s' r s''.
     update_btb initialize_btb 0x1000 0x2000 1 BRANCH_CONDITIONAL 5 = Inr s' \<and>
     btb_prediction initialize_btb 0x1000 BRANCH_DIRECT_CALL 5 = Inr (r, s'') \<and>
     basic_btb_conditional_history s' = 1 \<and> basic_btb_conditional_history s'' = 0"
proof -
  have k: "cache_kind BRANCH_CONDITIONAL" "cache_kind BRANCH_DIRECT_CALL"
    by (simp_all add: cache_kind_def)
  have "\<exists>s'. update_btb initialize_btb 0x1000 0x2000 1 BRANCH_CONDITIONAL 5 = Inr s'"
    by (simp add: initialize_btb_allocate [OF _ _ _ k(1)])
  then obtain s' where u: "update_btb initialize_btb 0x1000 0x2000 1 BRANCH_CONDITIONAL 5 = Inr s'"
    by blast
  have m: "find_if_tag (basic_btb initialize_btb) 0x1000 (btb_set_begin 0x1000) BASIC_BTB_WAYS
              = btb_set_end 0x1000"
    by (rule initialize_btb_miss) simp
  from btb_prediction_cache [OF wf_state_initialize_btb k(2), of "0x1000" 5] m
  obtain s'' where p: "btb_prediction initialize_btb 0x1000 BRANCH_DIRECT_CALL 5 = Inr ((0, 1), s'')"
    by (auto simp: Let_def)
  have h0: "basic_btb_conditional_history initialize_btb = 0"
    by (simp add: initialize_btb_def)
  have h1: "bitset_set0 (push_bit 1 (0 :: 12 word)) ((1 :: 8 word) \<noteq> 0) = 1"
    by (simp add: bitset_set0_def)
  from history_only_conditional_update [OF u p] h0 h1
  have "basic_btb_conditional_history s'' = 0 \<and> basic_btb_conditional_history s' = 1"
    by simp
  with u p show ?thesis by blast
qed

lemma btb_prediction_effect:
  assumes "wf_state s"
  shows "\<exists>r s'. btb_prediction s ip bt now = Inr (r, s') \<and> wf_state s' \<and>
           basic_btb_indirect s' = basic_btb_indirect s \<and>
           basic_btb_conditional_history s' = basic_btb_conditional_history s \<and>
           basic_btb_call_instr_sizes s' = basic_btb_call_instr_sizes s \<and>
           (if bt = BRANCH_DIRECT_CALL \<or> bt = BRANCH_INDIRECT_CALL
            then basic_btb_ras_index s' =
                   (if basic_btb_ras_index s = BASIC_BTB_RAS_SIZE - 1 then 0
                    else basic_btb_ras_index s + 1) \<and>
                 basic_btb_ras s' = (basic_btb_ras s)[nat (basic_btb_ras_index s') := ip]
            else basic_btb_ras_index s' = basic_btb_ras_index s \<and>
                 basic_btb_ras s' = basic_btb_ras s) \<and>
           length (basic_btb s') = length (basic_btb s) \<and>
           (\<forall>k<length (basic_btb s).
              ip_tag (basic_btb s' ! k) = ip_tag (basic_btb s ! k) \<and>
              target (basic_btb s' ! k) = target (basic_btb s ! k) \<and>
              always_taken (basic_btb s' ! k) = always_taken (basic_btb s ! k)) \<and>
           (basic_btb s' = basic_btb s \<or>
            (cache_kind bt \<and>
             find_if_tag (basic_btb s) ip (btb_set_begin ip) BASIC_BTB_WAYS < btb_set_end ip \<and>
             basic_btb s' = (basic_btb s)
               [find_if_tag (basic_btb s) ip (btb_set_begin ip) BASIC_BTB_WAYS :=
                  (basic_btb s ! find_if_tag (basic_btb s) ip (btb_set_begin ip) BASIC_BTB_WAYS)
                    \<lparr>last_cycle_used := now\<rparr>]))"
proof -
  let ?call = "bt = BRANCH_DIRECT_CALL \<or> bt = BRANCH_INDIRECT_CALL"
  let ?i = "basic_btb_ras_index s"
  let ?j = "find_if_tag (basic_btb s) ip (btb_set_begin ip) BASIC_BTB_WAYS"
  from assms have r: "0 \<le> ?i" "?i < 64"
    by (simp_all add: wf_state_def BASIC_BTB_RAS_SIZE_def)
  have pi: "(?i + 1) mod BASIC_BTB_RAS_SIZE =
              (if ?i = BASIC_BTB_RAS_SIZE - 1 then 0 else ?i + 1)"
    using r by (simp add: BASIC_BTB_RAS_SIZE_def)
  from push_basic_btb_ras_wf [OF assms, of ip] obtain sp where
    p: "push_basic_btb_ras s ip = Inr sp" and wfp: "wf_state sp"
    and pidx: "basic_btb_ras_index sp = (if ?i = BASIC_BTB_RAS_SIZE - 1 then 0 else ?i + 1)"
    and pras: "basic_btb_ras sp = (basic_btb_ras s)[nat (basic_btb_ras_index sp) := ip]"
    and pfr: "basic_btb sp = basic_btb s" "basic_btb_indirect sp = basic_btb_indirect s"
      "basic_btb_conditional_history sp = basic_btb_conditional_history s"
      "basic_btb_call_instr_sizes sp = basic_btb_call_instr_sizes s"
    unfolding pi by blast
  show ?thesis
  proof (cases "cache_kind bt")
    case True
    from btb_prediction_cache [OF assms True, of ip now] obtain s1 where
      s1: "(if bt = BRANCH_DIRECT_CALL then push_basic_btb_ras s ip else Inr s) = Inr s1"
      and e: "btb_prediction s ip bt now =
             (if ?j = btb_set_end ip then Inr ((0, 1), s1)
              else Inr ((target (basic_btb s ! ?j),
                         if always_taken (basic_btb s ! ?j) then 1 else 0),
                        s1\<lparr>basic_btb := (basic_btb s)
                             [?j := (basic_btb s ! ?j)\<lparr>last_cycle_used := now\<rparr>]\<rparr>))"
      by (auto simp: Let_def)
    from True have nic: "bt \<noteq> BRANCH_INDIRECT_CALL" by (simp add: cache_kind_def)
    have s1eq: "s1 = (if bt = BRANCH_DIRECT_CALL then sp else s)"
      using s1 p by (simp split: if_splits)
    have jb: "?j \<le> btb_set_end ip"
      using find_if_tag_bounds [of "btb_set_begin ip" "basic_btb s" ip BASIC_BTB_WAYS]
      by (simp add: btb_set_end_def)
    show ?thesis
    proof (cases "?j = btb_set_end ip")
      case miss: True
      with e s1eq nic pidx pras pfr wfp assms show ?thesis by simp
    next
      case hit: False
      with jb have jlt: "?j < btb_set_end ip" by simp
      with wf_state_set_end [OF assms, of ip] have "?j < length (basic_btb s)" by simp
      moreover have "wf_state (t\<lparr>basic_btb := (basic_btb s)[?j := x]\<rparr>)"
        if "wf_state t" for t x
        using that assms by (simp add: wf_state_def)
      ultimately show ?thesis
        using e s1eq nic pidx pras pfr hit jlt True wfp assms
        by (simp add: nth_list_update)
    qed
  next
    case False
    then consider "bt = BRANCH_RETURN" | "bt = BRANCH_INDIRECT" | "bt = BRANCH_INDIRECT_CALL"
      by (auto simp: cache_kind_def)
    then show ?thesis
    proof cases
      case 1
      from assms have "peek_basic_btb_ras s = Inr (basic_btb_ras s ! nat ?i)"
        by (rule peek_basic_btb_ras_wf)
      moreover from assms basic_btb_call_size_tracker_hash_less
      have "unat (basic_btb_call_size_tracker_hash a) < length (basic_btb_call_instr_sizes s)"
        for a by (simp add: wf_state_def)
      ultimately show ?thesis using 1 assms
        by (simp add: btb_prediction_def basic_btb_get_call_size_def Let_def)
    next
      case 2
      from assms have "indirect_index s ip < length (basic_btb_indirect s)"
        by (simp add: wf_state_def indirect_index_less)
      with 2 assms show ?thesis by (simp add: btb_prediction_def Let_def)
    next
      case 3
      from wfp have "indirect_index sp ip < length (basic_btb_indirect sp)"
        by (simp add: wf_state_def indirect_index_less)
      with 3 p pidx pras pfr wfp show ?thesis by (simp add: btb_prediction_def Let_def)
    qed
  qed
qed

text \<open>
  C10: a prediction from a well-formed state returns, and leaves the indirect table, the
  history register and the call-size table unchanged. The RAS changes only for the
  DIRECT_CALL and INDIRECT_CALL kinds, where the index advances with wrap-around and the
  new top slot receives the address. In the target cache no tag, target or always-taken
  flag changes; the array is unchanged, or the kind is routed to the cache, the lookup
  hit, and the array differs only in the \<open>last_cycle_used\<close> field of the entry that hit.
\<close>

theorem btb_prediction_frame:
  assumes "wf_state s"
  shows "\<exists>r s'. btb_prediction s ip bt now = Inr (r, s') \<and>
           basic_btb_indirect s' = basic_btb_indirect s \<and>
           basic_btb_conditional_history s' = basic_btb_conditional_history s \<and>
           basic_btb_call_instr_sizes s' = basic_btb_call_instr_sizes s \<and>
           (if bt = BRANCH_DIRECT_CALL \<or> bt = BRANCH_INDIRECT_CALL
            then basic_btb_ras_index s' =
                   (if basic_btb_ras_index s = BASIC_BTB_RAS_SIZE - 1 then 0
                    else basic_btb_ras_index s + 1) \<and>
                 basic_btb_ras s' = (basic_btb_ras s)[nat (basic_btb_ras_index s') := ip]
            else basic_btb_ras_index s' = basic_btb_ras_index s \<and>
                 basic_btb_ras s' = basic_btb_ras s) \<and>
           length (basic_btb s') = length (basic_btb s) \<and>
           (\<forall>k<length (basic_btb s).
              ip_tag (basic_btb s' ! k) = ip_tag (basic_btb s ! k) \<and>
              target (basic_btb s' ! k) = target (basic_btb s ! k) \<and>
              always_taken (basic_btb s' ! k) = always_taken (basic_btb s ! k)) \<and>
           (basic_btb s' = basic_btb s \<or>
            (cache_kind bt \<and>
             find_if_tag (basic_btb s) ip (btb_set_begin ip) BASIC_BTB_WAYS < btb_set_end ip \<and>
             basic_btb s' = (basic_btb s)
               [find_if_tag (basic_btb s) ip (btb_set_begin ip) BASIC_BTB_WAYS :=
                  (basic_btb s ! find_if_tag (basic_btb s) ip (btb_set_begin ip) BASIC_BTB_WAYS)
                    \<lparr>last_cycle_used := now\<rparr>]))"
  using btb_prediction_effect [OF assms, of ip bt now] by blast

theorem btb_prediction_frame_witness:
  "wf_state initialize_btb \<and>
   (\<exists>r s'. btb_prediction initialize_btb 0x1000 BRANCH_DIRECT_CALL 5 = Inr (r, s') \<and>
      basic_btb_ras_index s' = 1 \<and>
      basic_btb_ras s' = (basic_btb_ras initialize_btb)[1 := 0x1000] \<and>
      basic_btb_indirect s' = basic_btb_indirect initialize_btb \<and>
      basic_btb_conditional_history s' = basic_btb_conditional_history initialize_btb \<and>
      basic_btb_call_instr_sizes s' = basic_btb_call_instr_sizes initialize_btb)"
proof -
  have i: "basic_btb_ras_index initialize_btb = 0" by (simp add: initialize_btb_def)
  from btb_prediction_frame [OF wf_state_initialize_btb, of "0x1000" BRANCH_DIRECT_CALL 5]
  obtain r s' where
    "btb_prediction initialize_btb 0x1000 BRANCH_DIRECT_CALL 5 = Inr (r, s')"
    "basic_btb_ras_index s' = 1"
    "basic_btb_ras s' = (basic_btb_ras initialize_btb)[nat (basic_btb_ras_index s') := 0x1000]"
    "basic_btb_indirect s' = basic_btb_indirect initialize_btb"
    "basic_btb_conditional_history s' = basic_btb_conditional_history initialize_btb"
    "basic_btb_call_instr_sizes s' = basic_btb_call_instr_sizes initialize_btb"
    by (auto simp: i BASIC_BTB_RAS_SIZE_def)
  then show ?thesis using wf_state_initialize_btb by auto
qed

section \<open>Replacement\<close>

text \<open>
  C4: when an update allocates (the address misses in its set and the branch was taken
  to a non-zero target), exactly one position \<open>v\<close> of the array is overwritten with the
  new entry. It is the result of the scan over the \<open>BASIC_BTB_WAYS\<close> entries of the set
  of \<open>ip\<close>: it lies in that set, no entry of the set has a smaller \<open>last_cycle_used\<close>,
  and every entry of the set before it has a strictly larger one (first-encountered
  minimum). Every other entry of the array is unchanged.
\<close>

theorem lru_eviction:
  assumes "wf_state s" and "cache_kind bt"
    and "find_if_tag (basic_btb s) ip (btb_set_begin ip) BASIC_BTB_WAYS = btb_set_end ip"
    and "branch_target \<noteq> 0" and "taken \<noteq> 0"
  shows "\<exists>v s'. update_btb s ip branch_target taken bt now = Inr s' \<and>
           v = min_element_lru (basic_btb s) (btb_set_begin ip) BASIC_BTB_WAYS \<and>
           btb_set_begin ip \<le> v \<and> v < btb_set_end ip \<and>
           (\<forall>k. btb_set_begin ip \<le> k \<and> k < btb_set_end ip \<longrightarrow>
                last_cycle_used (basic_btb s ! v) \<le> last_cycle_used (basic_btb s ! k)) \<and>
           (\<forall>k. btb_set_begin ip \<le> k \<and> k < v \<longrightarrow>
                last_cycle_used (basic_btb s ! v) < last_cycle_used (basic_btb s ! k)) \<and>
           basic_btb s' = (basic_btb s)
             [v := \<lparr>ip_tag = ip, target = branch_target, always_taken = True,
                    last_cycle_used = now\<rparr>] \<and>
           length (basic_btb s') = length (basic_btb s) \<and>
           (\<forall>k<length (basic_btb s). k \<noteq> v \<longrightarrow> basic_btb s' ! k = basic_btb s ! k)"
proof -
  let ?arr = "basic_btb s"
  let ?v = "min_element_lru ?arr (btb_set_begin ip) BASIC_BTB_WAYS"
  have w: "0 < BASIC_BTB_WAYS" by (simp add: BASIC_BTB_WAYS_def)
  have a: "update_btb_allocates ?arr ip branch_target taken"
    using assms(3-5) by (simp add: update_btb_allocates_def)
  from update_btb_slot_allocates [OF a]
  have sl: "update_btb_slot ?arr ip branch_target taken = ?v"
    and lo: "btb_set_begin ip \<le> ?v" and hi: "?v < btb_set_end ip" by simp_all
  from hi wf_state_set_end [OF assms(1), of ip] have lt: "?v < length ?arr" by simp
  have least: "\<forall>k. btb_set_begin ip \<le> k \<and> k < btb_set_end ip \<longrightarrow>
                last_cycle_used (?arr ! ?v) \<le> last_cycle_used (?arr ! k)"
    using min_element_lru_least [OF w, of "btb_set_begin ip" _ ?arr]
    by (simp add: btb_set_end_def)
  have first: "\<forall>k. btb_set_begin ip \<le> k \<and> k < ?v \<longrightarrow>
                last_cycle_used (?arr ! ?v) < last_cycle_used (?arr ! k)"
    using min_element_lru_first [OF w, of "btb_set_begin ip" _ ?arr] by simp
  obtain s' where u: "update_btb s ip branch_target taken bt now = Inr s'"
    and b: "basic_btb s' = ?arr
             [?v := \<lparr>ip_tag = ip, target = branch_target, always_taken = True,
                     last_cycle_used = now\<rparr>]"
    using lt assms(5) by (simp add: update_btb_cache [OF assms(1,2)] sl a Let_def)
  from b have "length (basic_btb s') = length ?arr"
    and "\<forall>k<length ?arr. k \<noteq> ?v \<longrightarrow> basic_btb s' ! k = ?arr ! k"
    by simp_all
  with u b lo hi least first show ?thesis by blast
qed

theorem lru_eviction_witness:
  "wf_state (initialize_btb\<lparr>basic_btb :=
      [\<lparr>ip_tag = 0x1000, target = 0x100, always_taken = True, last_cycle_used = 20\<rparr>,
       \<lparr>ip_tag = 0x2000, target = 0x200, always_taken = True, last_cycle_used = 10\<rparr>,
       \<lparr>ip_tag = 0x3000, target = 0x300, always_taken = True, last_cycle_used = 30\<rparr>,
       \<lparr>ip_tag = 0x4000, target = 0x400, always_taken = True, last_cycle_used = 40\<rparr>,
       \<lparr>ip_tag = 0x5000, target = 0x500, always_taken = True, last_cycle_used = 50\<rparr>,
       \<lparr>ip_tag = 0x6000, target = 0x600, always_taken = True, last_cycle_used = 60\<rparr>,
       \<lparr>ip_tag = 0x7000, target = 0x700, always_taken = True, last_cycle_used = 70\<rparr>,
       \<lparr>ip_tag = 0x8000, target = 0x800, always_taken = True, last_cycle_used = 80\<rparr>]
      @ drop 8 (basic_btb initialize_btb)\<rparr>) \<and>
   (\<exists>s'. update_btb (initialize_btb\<lparr>basic_btb :=
      [\<lparr>ip_tag = 0x1000, target = 0x100, always_taken = True, last_cycle_used = 20\<rparr>,
       \<lparr>ip_tag = 0x2000, target = 0x200, always_taken = True, last_cycle_used = 10\<rparr>,
       \<lparr>ip_tag = 0x3000, target = 0x300, always_taken = True, last_cycle_used = 30\<rparr>,
       \<lparr>ip_tag = 0x4000, target = 0x400, always_taken = True, last_cycle_used = 40\<rparr>,
       \<lparr>ip_tag = 0x5000, target = 0x500, always_taken = True, last_cycle_used = 50\<rparr>,
       \<lparr>ip_tag = 0x6000, target = 0x600, always_taken = True, last_cycle_used = 60\<rparr>,
       \<lparr>ip_tag = 0x7000, target = 0x700, always_taken = True, last_cycle_used = 70\<rparr>,
       \<lparr>ip_tag = 0x8000, target = 0x800, always_taken = True, last_cycle_used = 80\<rparr>]
      @ drop 8 (basic_btb initialize_btb)\<rparr>) 0x9000 0x900 1 BRANCH_DIRECT_JUMP 90 = Inr s' \<and>
    basic_btb s' =
      [\<lparr>ip_tag = 0x1000, target = 0x100, always_taken = True, last_cycle_used = 20\<rparr>,
       \<lparr>ip_tag = 0x9000, target = 0x900, always_taken = True, last_cycle_used = 90\<rparr>,
       \<lparr>ip_tag = 0x3000, target = 0x300, always_taken = True, last_cycle_used = 30\<rparr>,
       \<lparr>ip_tag = 0x4000, target = 0x400, always_taken = True, last_cycle_used = 40\<rparr>,
       \<lparr>ip_tag = 0x5000, target = 0x500, always_taken = True, last_cycle_used = 50\<rparr>,
       \<lparr>ip_tag = 0x6000, target = 0x600, always_taken = True, last_cycle_used = 60\<rparr>,
       \<lparr>ip_tag = 0x7000, target = 0x700, always_taken = True, last_cycle_used = 70\<rparr>,
       \<lparr>ip_tag = 0x8000, target = 0x800, always_taken = True, last_cycle_used = 80\<rparr>]
      @ drop 8 (basic_btb initialize_btb))"
proof -
  define rest where "rest = drop 8 (basic_btb initialize_btb)"
  define arr where "arr =
      [\<lparr>ip_tag = 0x1000, target = 0x100, always_taken = True, last_cycle_used = 20\<rparr>,
       \<lparr>ip_tag = 0x2000, target = 0x200, always_taken = True, last_cycle_used = 10\<rparr>,
       \<lparr>ip_tag = 0x3000, target = 0x300, always_taken = True, last_cycle_used = 30\<rparr>,
       \<lparr>ip_tag = 0x4000, target = 0x400, always_taken = True, last_cycle_used = 40\<rparr>,
       \<lparr>ip_tag = 0x5000, target = 0x500, always_taken = True, last_cycle_used = 50\<rparr>,
       \<lparr>ip_tag = 0x6000, target = 0x600, always_taken = True, last_cycle_used = 60\<rparr>,
       \<lparr>ip_tag = 0x7000, target = 0x700, always_taken = True, last_cycle_used = 70\<rparr>,
       \<lparr>ip_tag = (0x8000 :: 64 word), target = (0x800 :: 64 word), always_taken = True,
         last_cycle_used = (80 :: 64 word)\<rparr>] @ rest"
  let ?s = "initialize_btb\<lparr>basic_btb := arr\<rparr>"
  have lr: "length rest = 8184" by (simp add: rest_def initialize_btb_length)
  then have la: "length arr = 8192" by (simp add: arr_def)
  have wf: "wf_state ?s"
    using wf_state_initialize_btb la
    by (simp add: wf_state_def BASIC_BTB_SETS_def BASIC_BTB_WAYS_def)
  have k: "cache_kind BRANCH_DIRECT_JUMP" by (simp add: cache_kind_def)
  have b: "btb_set_begin 0x9000 = 0" and e: "btb_set_end 0x9000 = 8"
    by (simp_all add: btb_set_end_def btb_set_begin_def BASIC_BTB_SETS_def BASIC_BTB_WAYS_def
        drop_bit_eq_div)
  have eight: "BASIC_BTB_WAYS = Suc (Suc (Suc (Suc (Suc (Suc (Suc (Suc 0)))))))"
    by (simp add: BASIC_BTB_WAYS_def)
  have m: "find_if_tag (basic_btb ?s) 0x9000 (btb_set_begin 0x9000) BASIC_BTB_WAYS
             = btb_set_end 0x9000"
    unfolding b e eight by (simp add: arr_def)
  have v: "min_element_lru (basic_btb ?s) (btb_set_begin 0x9000) BASIC_BTB_WAYS = 1"
    unfolding b eight by (simp add: arr_def min_element_lru_def)
  have upd: "arr[1 := x] =
      [\<lparr>ip_tag = 0x1000, target = 0x100, always_taken = True, last_cycle_used = 20\<rparr>,
       x,
       \<lparr>ip_tag = 0x3000, target = 0x300, always_taken = True, last_cycle_used = 30\<rparr>,
       \<lparr>ip_tag = 0x4000, target = 0x400, always_taken = True, last_cycle_used = 40\<rparr>,
       \<lparr>ip_tag = 0x5000, target = 0x500, always_taken = True, last_cycle_used = 50\<rparr>,
       \<lparr>ip_tag = 0x6000, target = 0x600, always_taken = True, last_cycle_used = 60\<rparr>,
       \<lparr>ip_tag = 0x7000, target = 0x700, always_taken = True, last_cycle_used = 70\<rparr>,
       \<lparr>ip_tag = 0x8000, target = 0x800, always_taken = True, last_cycle_used = 80\<rparr>]
      @ rest" for x
    by (simp add: arr_def)
  from lru_eviction [OF wf k m, of "0x900" 1 90]
  obtain s' where "update_btb ?s 0x9000 0x900 1 BRANCH_DIRECT_JUMP 90 = Inr s'"
    and "basic_btb s' = arr
      [1 := \<lparr>ip_tag = 0x9000, target = 0x900, always_taken = True, last_cycle_used = 90\<rparr>]"
    unfolding v by auto
  with wf show ?thesis
    unfolding upd by (auto simp: arr_def rest_def)
qed

section \<open>The always-taken flag\<close>

text \<open>The effect of an update of a kind routed to the cache, when it returns.\<close>

lemma update_btb_cache_effect:
  assumes "wf_state s" and "cache_kind bt"
    and "update_btb s ip branch_target taken bt now = Inr s'"
  shows "wf_state s'"
    and "update_btb_slot (basic_btb s) ip branch_target taken < length (basic_btb s)"
    and "basic_btb s' = (basic_btb s)
           [update_btb_slot (basic_btb s) ip branch_target taken :=
              \<lparr>ip_tag = ip, target = branch_target,
               always_taken =
                 ((update_btb_allocates (basic_btb s) ip branch_target taken \<or>
                   always_taken (basic_btb s !
                     update_btb_slot (basic_btb s) ip branch_target taken)) \<and> taken \<noteq> 0),
               last_cycle_used = now\<rparr>]"
proof -
  let ?w = "update_btb_slot (basic_btb s) ip branch_target taken"
  from assms(3) show lt: "?w < length (basic_btb s)"
    by (simp add: update_btb_cache [OF assms(1,2)] Let_def split: if_splits)
  with assms(3) show "basic_btb s' = (basic_btb s)
           [?w := \<lparr>ip_tag = ip, target = branch_target,
               always_taken =
                 ((update_btb_allocates (basic_btb s) ip branch_target taken \<or>
                   always_taken (basic_btb s ! ?w)) \<and> taken \<noteq> 0),
               last_cycle_used = now\<rparr>]"
    by (auto simp: update_btb_cache [OF assms(1,2)] Let_def split: if_splits)
  from assms(3) lt assms(1) show "wf_state s'"
    by (auto simp: update_btb_cache [OF assms(1,2)] Let_def wf_state_def split: if_splits)
qed

lemma update_btb_other_effect:
  assumes "wf_state s" and "\<not> cache_kind bt"
    and "update_btb s ip branch_target taken bt now = Inr s'"
  shows "wf_state s' \<and> basic_btb s' = basic_btb s"
proof -
  from assms(2) consider "bt = BRANCH_RETURN" | "bt = BRANCH_INDIRECT \<or> bt = BRANCH_INDIRECT_CALL"
    by (auto simp: cache_kind_def)
  then show ?thesis
  proof cases
    case 1
    from update_btb_return [OF assms(1), of ip branch_target taken now] obtain s1 where
      p: "pop_basic_btb_ras s = Inr (basic_btb_ras s ! nat (basic_btb_ras_index s), s1)"
      and wf1: "wf_state s1"
      and u: "update_btb s ip branch_target taken BRANCH_RETURN now =
             Inr (let call_ip = basic_btb_ras s ! nat (basic_btb_ras_index s);
                      d = basic_btb_abs_addr_dist call_ip branch_target
                  in if d \<le> 10
                     then s1\<lparr>basic_btb_call_instr_sizes :=
                             (basic_btb_call_instr_sizes s)
                               [unat call_ip mod BASIC_BTB_CALL_INSTR_SIZE_TRACKERS := d]\<rparr>
                     else s1)"
      by blast
    from pop_basic_btb_ras_frame [OF p] have f: "basic_btb s1 = basic_btb s"
      "basic_btb_call_instr_sizes s1 = basic_btb_call_instr_sizes s" by simp_all
    from wf1 f(2) have "wf_state (s1\<lparr>basic_btb_call_instr_sizes :=
                             (basic_btb_call_instr_sizes s)[k := d]\<rparr>)" for k d
      by (simp add: wf_state_def)
    with u assms(3) 1 wf1 f(1) show ?thesis
      by (auto simp: Let_def split: if_splits)
  next
    case 2
    from update_btb_indirect [OF assms(1) 2, of ip branch_target taken now] assms(3) assms(1)
    show ?thesis by (auto simp: wf_state_def)
  qed
qed

lemma btb_step_wf:
  assumes "wf_state s" and "btb_step s c = Inr s'"
  shows "wf_state s'"
proof (cases c)
  case (Predict ip bt now)
  from btb_prediction_effect [OF assms(1), of ip bt now] assms(2) Predict
  show ?thesis by auto
next
  case (Update ip branch_target taken bt now)
  with assms(2) have u: "update_btb s ip branch_target taken bt now = Inr s'" by simp
  show ?thesis
  proof (cases "cache_kind bt")
    case True
    from update_btb_cache_effect(1) [OF assms(1) True u] show ?thesis .
  next
    case False
    from update_btb_other_effect [OF assms(1) False u] show ?thesis by simp
  qed
qed

lemma cleared_hit_step:
  assumes "cleared_hit s ip j" and "btb_step s c = Inr s'"
    and "ip_tag (basic_btb s' ! j) = ip"
  shows "cleared_hit s' ip j"
proof -
  let ?arr = "basic_btb s"
  from assms(1) have wf: "wf_state s"
    and f: "find_if_tag ?arr ip (btb_set_begin ip) BASIC_BTB_WAYS = j"
    and ne: "j \<noteq> btb_set_end ip" and fl: "\<not> always_taken (?arr ! j)"
    by (simp_all add: cleared_hit_def)
  from f ne have hit: "find_if_tag ?arr ip (btb_set_begin ip) BASIC_BTB_WAYS \<noteq> btb_set_end ip"
    by simp
  from update_btb_slot_hit(3,4) [OF hit] f
  have lo: "btb_set_begin ip \<le> j" and hi: "j < btb_set_end ip" by simp_all
  from hi wf_state_set_end [OF wf, of ip] have jlt: "j < length ?arr" by simp
  have before: "ip_tag (?arr ! k) \<noteq> ip" if "btb_set_begin ip \<le> k" "k < j" for k
    using find_if_tag_first [OF that(1), of arr ip BASIC_BTB_WAYS for arr] that(2) f by blast
  have wf': "wf_state s'" by (rule btb_step_wf [OF wf assms(2)])
  have hi': "j < btb_set_begin ip + BASIC_BTB_WAYS" using hi by (simp add: btb_set_end_def)
  have goal: "cleared_hit s' ip j"
    if tags: "\<And>k. btb_set_begin ip \<le> k \<Longrightarrow> k < j \<Longrightarrow> ip_tag (basic_btb s' ! k) \<noteq> ip"
      and flag: "\<not> always_taken (basic_btb s' ! j)"
  proof -
    have "find_if_tag (basic_btb s') ip (btb_set_begin ip) BASIC_BTB_WAYS = j"
      by (rule find_if_tag_eqI [OF lo hi' assms(3)]) (rule tags)
    with wf' ne flag show ?thesis by (simp add: cleared_hit_def)
  qed
  show ?thesis
  proof (cases c)
    case (Predict ip2 bt now)
    from btb_prediction_effect [OF wf, of ip2 bt now] assms(2) Predict
    have same: "\<forall>k<length ?arr.
              ip_tag (basic_btb s' ! k) = ip_tag (?arr ! k) \<and>
              always_taken (basic_btb s' ! k) = always_taken (?arr ! k)"
      by auto
    show ?thesis
    proof (rule goal)
      fix k assume "btb_set_begin ip \<le> k" "k < j"
      with before [of k] same jlt show "ip_tag (basic_btb s' ! k) \<noteq> ip" by simp
    next
      from same jlt fl show "\<not> always_taken (basic_btb s' ! j)" by simp
    qed
  next
    case (Update ip2 branch_target taken bt now)
    with assms(2) have u: "update_btb s ip2 branch_target taken bt now = Inr s'" by simp
    show ?thesis
    proof (cases "cache_kind bt")
      case False
      from update_btb_other_effect [OF wf False u] have same: "basic_btb s' = ?arr" by simp
      show ?thesis
      proof (rule goal)
        fix k assume "btb_set_begin ip \<le> k" "k < j"
        with before [of k] same show "ip_tag (basic_btb s' ! k) \<noteq> ip" by simp
      next
        from same fl show "\<not> always_taken (basic_btb s' ! j)" by simp
      qed
    next
      case True
      let ?w = "update_btb_slot ?arr ip2 branch_target taken"
      from update_btb_cache_effect(2,3) [OF wf True u]
      have wlt: "?w < length ?arr"
        and arr': "basic_btb s' = ?arr
           [?w := \<lparr>ip_tag = ip2, target = branch_target,
              always_taken =
                ((update_btb_allocates ?arr ip2 branch_target taken \<or>
                  always_taken (?arr ! ?w)) \<and> taken \<noteq> 0),
              last_cycle_used = now\<rparr>]"
        by simp_all
      have same_ip: "?w = j \<and> \<not> update_btb_allocates ?arr ip2 branch_target taken"
        if "ip2 = ip"
        using update_btb_slot_hit(1,2) [OF hit, of branch_target taken] f that by simp
      show ?thesis
      proof (rule goal)
        fix k assume k: "btb_set_begin ip \<le> k" "k < j"
        show "ip_tag (basic_btb s' ! k) \<noteq> ip"
        proof (cases "k = ?w")
          case True
          with k same_ip have "ip2 \<noteq> ip" by auto
          with True wlt show ?thesis by (simp add: arr')
        next
          case False
          with before [OF k] show ?thesis by (simp add: arr')
        qed
      next
        show "\<not> always_taken (basic_btb s' ! j)"
        proof (cases "j = ?w")
          case True
          with assms(3) wlt have "ip2 = ip" by (simp add: arr')
          with same_ip True fl wlt show ?thesis by (simp add: arr')
        next
          case False
          with fl show ?thesis by (simp add: arr')
        qed
      qed
    qed
  qed
qed

lemma cleared_hit_run:
  assumes "cleared_hit s ip j" and "btb_run s cs = Inr t"
    and "\<forall>n\<le>length cs. \<forall>u. btb_run s (take n cs) = Inr u \<longrightarrow> ip_tag (basic_btb u ! j) = ip"
  shows "cleared_hit t ip j"
  using assms
proof (induction cs arbitrary: s)
  case Nil
  then show ?case by simp
next
  case (Cons c cs)
  from Cons.prems(2) obtain s1 where st: "btb_step s c = Inr s1" and run: "btb_run s1 cs = Inr t"
    by (auto split: sum.splits)
  have "btb_run s (take 1 (c # cs)) = Inr s1" using st by simp
  with Cons.prems(3) have "ip_tag (basic_btb s1 ! j) = ip"
    by (metis One_nat_def Suc_leI length_Cons zero_less_Suc)
  with Cons.prems(1) st have c1: "cleared_hit s1 ip j" by (rule cleared_hit_step)
  have "\<forall>n\<le>length cs. \<forall>u. btb_run s1 (take n cs) = Inr u \<longrightarrow> ip_tag (basic_btb u ! j) = ip"
  proof (intro allI impI)
    fix n u assume n: "n \<le> length cs" and r: "btb_run s1 (take n cs) = Inr u"
    from r st have "btb_run s (take (Suc n) (c # cs)) = Inr u" by simp
    moreover from n have "Suc n \<le> length (c # cs)" by simp
    ultimately show "ip_tag (basic_btb u ! j) = ip" using Cons.prems(3) by blast
  qed
  with c1 run show ?case by (rule Cons.IH)
qed

lemma cleared_hit_prediction:
  assumes "cleared_hit s ip j" and "cache_kind bt"
  shows "\<exists>s'. btb_prediction s ip bt now = Inr ((target (basic_btb s ! j), 0), s')"
proof -
  from assms(1) have wf: "wf_state s"
    and f: "find_if_tag (basic_btb s) ip (btb_set_begin ip) BASIC_BTB_WAYS = j"
    and ne: "j \<noteq> btb_set_end ip" and fl: "\<not> always_taken (basic_btb s ! j)"
    by (simp_all add: cleared_hit_def)
  from btb_prediction_cache [OF wf assms(2), of ip now] f ne fl show ?thesis
    by (auto simp: Let_def)
qed

lemma update_btb_allocating:
  assumes "wf_state s" and "cache_kind bt"
    and "update_btb_allocates (basic_btb s) ip branch_target taken"
  shows "\<exists>s'. update_btb s ip branch_target taken bt now = Inr s' \<and> wf_state s' \<and>
           find_if_tag (basic_btb s') ip (btb_set_begin ip) BASIC_BTB_WAYS
             = min_element_lru (basic_btb s) (btb_set_begin ip) BASIC_BTB_WAYS \<and>
           min_element_lru (basic_btb s) (btb_set_begin ip) BASIC_BTB_WAYS \<noteq> btb_set_end ip \<and>
           basic_btb s' ! min_element_lru (basic_btb s) (btb_set_begin ip) BASIC_BTB_WAYS
             = \<lparr>ip_tag = ip, target = branch_target, always_taken = True,
                last_cycle_used = now\<rparr>"
proof -
  let ?arr = "basic_btb s"
  let ?v = "min_element_lru ?arr (btb_set_begin ip) BASIC_BTB_WAYS"
  let ?e = "\<lparr>ip_tag = ip, target = branch_target, always_taken = True, last_cycle_used = now\<rparr>"
  from update_btb_slot_allocates [OF assms(3)]
  have sl: "update_btb_slot ?arr ip branch_target taken = ?v"
    and lo: "btb_set_begin ip \<le> ?v" and hi: "?v < btb_set_end ip" by simp_all
  from hi wf_state_set_end [OF assms(1), of ip] have lt: "?v < length ?arr" by simp
  from assms(3) have tk: "taken \<noteq> 0"
    and miss: "find_if_tag ?arr ip (btb_set_begin ip) BASIC_BTB_WAYS
                 = btb_set_begin ip + BASIC_BTB_WAYS"
    by (simp_all add: update_btb_allocates_def btb_set_end_def)
  have u: "update_btb s ip branch_target taken bt now =
             Inr ((if bt = BRANCH_CONDITIONAL
                   then s\<lparr>basic_btb_conditional_history :=
                            bitset_set0 (push_bit 1 (basic_btb_conditional_history s))
                              (taken \<noteq> 0)\<rparr>
                   else s)\<lparr>basic_btb := ?arr[?v := ?e]\<rparr>)" (is "_ = Inr ?s'")
    using lt tk assms(3)
    by (simp add: update_btb_cache [OF assms(1,2)] sl Let_def del: push_bit_of_Suc_0)
  have arr': "basic_btb ?s' = ?arr[?v := ?e]" by simp
  have wf': "wf_state ?s'"
    using assms(1) by (simp add: wf_state_def)
  have hi': "?v < btb_set_begin ip + BASIC_BTB_WAYS" using hi by (simp add: btb_set_end_def)
  have "find_if_tag (basic_btb ?s') ip (btb_set_begin ip) BASIC_BTB_WAYS = ?v"
  proof (rule find_if_tag_eqI [OF lo hi'])
    from lt show "ip_tag (basic_btb ?s' ! ?v) = ip" unfolding arr' by simp
  next
    fix k assume k: "btb_set_begin ip \<le> k" "k < ?v"
    with hi' miss have "ip_tag (?arr ! k) \<noteq> ip"
      unfolding find_if_tag_miss_iff by simp
    with k show "ip_tag (basic_btb ?s' ! k) \<noteq> ip" unfolding arr' by simp
  qed
  moreover from lt have "basic_btb ?s' ! ?v = ?e" unfolding arr' by simp
  ultimately show ?thesis using u wf' hi by (intro exI [of _ ?s']) simp
qed

lemma update_btb_on_hit:
  assumes "wf_state s" and "cache_kind bt"
    and "find_if_tag (basic_btb s) ip (btb_set_begin ip) BASIC_BTB_WAYS = j"
    and "j \<noteq> btb_set_end ip"
  shows "\<exists>s'. update_btb s ip branch_target taken bt now = Inr s' \<and> wf_state s' \<and>
           find_if_tag (basic_btb s') ip (btb_set_begin ip) BASIC_BTB_WAYS = j \<and>
           basic_btb s' ! j =
             \<lparr>ip_tag = ip, target = branch_target,
              always_taken = (always_taken (basic_btb s ! j) \<and> taken \<noteq> 0),
              last_cycle_used = now\<rparr>"
proof -
  let ?arr = "basic_btb s"
  let ?e = "\<lparr>ip_tag = ip, target = branch_target,
              always_taken = (always_taken (?arr ! j) \<and> taken \<noteq> 0), last_cycle_used = now\<rparr>"
  from assms(3,4)
  have hit: "find_if_tag ?arr ip (btb_set_begin ip) BASIC_BTB_WAYS \<noteq> btb_set_end ip" by simp
  from update_btb_slot_hit(1,2) [OF hit, of branch_target taken]
    update_btb_slot_hit(3,4) [OF hit] assms(3)
  have sl: "update_btb_slot ?arr ip branch_target taken = j"
    and na: "\<not> update_btb_allocates ?arr ip branch_target taken"
    and lo: "btb_set_begin ip \<le> j" and hi: "j < btb_set_end ip" by simp_all
  from hi wf_state_set_end [OF assms(1), of ip] have lt: "j < length ?arr" by simp
  have u: "update_btb s ip branch_target taken bt now =
             Inr ((if bt = BRANCH_CONDITIONAL
                   then s\<lparr>basic_btb_conditional_history :=
                            bitset_set0 (push_bit 1 (basic_btb_conditional_history s))
                              (taken \<noteq> 0)\<rparr>
                   else s)\<lparr>basic_btb := ?arr[j := ?e]\<rparr>)" (is "_ = Inr ?s'")
    using lt na
    by (simp add: update_btb_cache [OF assms(1,2)] sl Let_def del: push_bit_of_Suc_0)
  have arr': "basic_btb ?s' = ?arr[j := ?e]" by simp
  have wf': "wf_state ?s'"
    using assms(1) by (simp add: wf_state_def)
  have hi': "j < btb_set_begin ip + BASIC_BTB_WAYS" using hi by (simp add: btb_set_end_def)
  have "find_if_tag (basic_btb ?s') ip (btb_set_begin ip) BASIC_BTB_WAYS = j"
  proof (rule find_if_tag_eqI [OF lo hi'])
    from lt show "ip_tag (basic_btb ?s' ! j) = ip" unfolding arr' by simp
  next
    fix k assume k: "btb_set_begin ip \<le> k" "k < j"
    from find_if_tag_first [OF k(1), of ?arr ip BASIC_BTB_WAYS] k(2) assms(3)
    have "ip_tag (?arr ! k) \<noteq> ip" by simp
    with k show "ip_tag (basic_btb ?s' ! k) \<noteq> ip" unfolding arr' by simp
  qed
  moreover from lt have "basic_btb ?s' ! j = ?e" unfolding arr' by simp
  ultimately show ?thesis using u wf' by (intro exI [of _ ?s']) simp
qed

text \<open>The flag of an entry goes from cleared to set only in an allocation of that entry.\<close>

lemma always_taken_set_only_by_allocation:
  assumes "wf_state s" and "btb_step s c = Inr s'" and "k < length (basic_btb s)"
    and "\<not> always_taken (basic_btb s ! k)" and "always_taken (basic_btb s' ! k)"
  shows "\<exists>ip branch_target taken bt now.
           c = Update ip branch_target taken bt now \<and> cache_kind bt \<and>
           update_btb_allocates (basic_btb s) ip branch_target taken \<and>
           k = min_element_lru (basic_btb s) (btb_set_begin ip) BASIC_BTB_WAYS"
proof (cases c)
  case (Predict ip bt now)
  from btb_prediction_effect [OF assms(1), of ip bt now] assms(2) Predict
  have "\<forall>k<length (basic_btb s).
          always_taken (basic_btb s' ! k) = always_taken (basic_btb s ! k)"
    by auto
  with assms(3-5) show ?thesis by simp
next
  case (Update ip branch_target taken bt now)
  with assms(2) have u: "update_btb s ip branch_target taken bt now = Inr s'" by simp
  show ?thesis
  proof (cases "cache_kind bt")
    case False
    from update_btb_other_effect [OF assms(1) False u] assms(4,5) show ?thesis by simp
  next
    case True
    let ?w = "update_btb_slot (basic_btb s) ip branch_target taken"
    from update_btb_cache_effect(2,3) [OF assms(1) True u]
    have wlt: "?w < length (basic_btb s)"
      and arr': "basic_btb s' = (basic_btb s)
           [?w := \<lparr>ip_tag = ip, target = branch_target,
              always_taken =
                ((update_btb_allocates (basic_btb s) ip branch_target taken \<or>
                  always_taken (basic_btb s ! ?w)) \<and> taken \<noteq> 0),
              last_cycle_used = now\<rparr>]"
      by simp_all
    have kw: "k = ?w"
    proof (rule ccontr)
      assume "k \<noteq> ?w"
      with assms(4,5) show False by (simp add: arr')
    qed
    with assms(4,5) wlt have a: "update_btb_allocates (basic_btb s) ip branch_target taken"
      by (simp add: arr')
    from update_btb_slot_allocates(3) [OF a] kw Update True a show ?thesis by simp
  qed
qed

text \<open>
  What does hold of the flag, for branch kinds routed to the target cache. (1) After an
  update that allocates an entry (miss, taken, non-zero target), a prediction for that
  address returns the stored target with the always-taken flag set. (2) If the address
  has an entry, then after one update for it with \<open>taken = 0\<close>, and after any further
  sequence of predictions and updates during which the entry's position keeps the tag of
  that address, every prediction for that address reports the flag cleared; later taken
  updates for the address do not set it again. (3) In one call, the flag of any entry
  changes from cleared to set only when that call is an update that allocates this very
  entry as its victim. The hypothesis of (2) is needed: the section after this one shows
  a run in which the position loses its tag without any allocation.
\<close>

lemma always_taken_decay_while_tag_kept:
  assumes "wf_state s" and "cache_kind bt" and "cache_kind bt'"
  shows "(update_btb_allocates (basic_btb s) ip branch_target taken \<longrightarrow>
            (\<exists>s' s''. update_btb s ip branch_target taken bt now = Inr s' \<and>
               btb_prediction s' ip bt' now' = Inr ((branch_target, 1), s''))) \<and>
         (find_if_tag (basic_btb s) ip (btb_set_begin ip) BASIC_BTB_WAYS \<noteq> btb_set_end ip \<longrightarrow>
            (\<exists>s'. update_btb s ip branch_target 0 bt now = Inr s' \<and>
               (\<forall>cs t.
                  btb_run s' cs = Inr t \<and>
                  (\<forall>n\<le>length cs. \<forall>u. btb_run s' (take n cs) = Inr u \<longrightarrow>
                     ip_tag (basic_btb u !
                       find_if_tag (basic_btb s) ip (btb_set_begin ip) BASIC_BTB_WAYS) = ip)
                  \<longrightarrow> (\<exists>r t'. btb_prediction t ip bt' now' = Inr ((r, 0), t'))))) \<and>
         (\<forall>c s' k.
            btb_step s c = Inr s' \<and> k < length (basic_btb s) \<and>
            \<not> always_taken (basic_btb s ! k) \<and> always_taken (basic_btb s' ! k) \<longrightarrow>
            (\<exists>ip2 target2 taken2 bt2 now2.
               c = Update ip2 target2 taken2 bt2 now2 \<and> cache_kind bt2 \<and>
               update_btb_allocates (basic_btb s) ip2 target2 taken2 \<and>
               k = min_element_lru (basic_btb s) (btb_set_begin ip2) BASIC_BTB_WAYS))"
proof (intro conjI impI allI)
  assume a: "update_btb_allocates (basic_btb s) ip branch_target taken"
  let ?v = "min_element_lru (basic_btb s) (btb_set_begin ip) BASIC_BTB_WAYS"
  from update_btb_allocating [OF assms(1,2) a, of now] obtain s' where
    u: "update_btb s ip branch_target taken bt now = Inr s'" and wf': "wf_state s'"
    and f: "find_if_tag (basic_btb s') ip (btb_set_begin ip) BASIC_BTB_WAYS = ?v"
    and ne: "?v \<noteq> btb_set_end ip"
    and e: "basic_btb s' ! ?v =
              \<lparr>ip_tag = ip, target = branch_target, always_taken = True, last_cycle_used = now\<rparr>"
    by blast
  from btb_prediction_cache [OF wf' assms(3), of ip now'] f ne e
  have "\<exists>s''. btb_prediction s' ip bt' now' = Inr ((branch_target, 1), s'')"
    by (auto simp: Let_def)
  with u show "\<exists>s' s''. update_btb s ip branch_target taken bt now = Inr s' \<and>
               btb_prediction s' ip bt' now' = Inr ((branch_target, 1), s'')"
    by blast
next
  let ?j = "find_if_tag (basic_btb s) ip (btb_set_begin ip) BASIC_BTB_WAYS"
  assume hit: "?j \<noteq> btb_set_end ip"
  from update_btb_on_hit [OF assms(1,2) refl hit, of branch_target 0 now] obtain s' where
    u: "update_btb s ip branch_target 0 bt now = Inr s'" and wf': "wf_state s'"
    and f: "find_if_tag (basic_btb s') ip (btb_set_begin ip) BASIC_BTB_WAYS = ?j"
    and e: "\<not> always_taken (basic_btb s' ! ?j)"
    by auto
  from wf' f hit e have c: "cleared_hit s' ip ?j" by (simp add: cleared_hit_def)
  have "\<exists>r t'. btb_prediction t ip bt' now' = Inr ((r, 0), t')"
    if "btb_run s' cs = Inr t \<and>
        (\<forall>n\<le>length cs. \<forall>u. btb_run s' (take n cs) = Inr u \<longrightarrow>
           ip_tag (basic_btb u ! ?j) = ip)" for cs t
  proof -
    from that have "cleared_hit t ip ?j"
      using cleared_hit_run [OF c, of cs t] by blast
    from cleared_hit_prediction [OF this assms(3), of now'] show ?thesis by blast
  qed
  with u show "\<exists>s'. update_btb s ip branch_target 0 bt now = Inr s' \<and>
               (\<forall>cs t.
                  btb_run s' cs = Inr t \<and>
                  (\<forall>n\<le>length cs. \<forall>u. btb_run s' (take n cs) = Inr u \<longrightarrow>
                     ip_tag (basic_btb u ! ?j) = ip)
                  \<longrightarrow> (\<exists>r t'. btb_prediction t ip bt' now' = Inr ((r, 0), t')))"
    by blast
next
  fix c s' k
  assume "btb_step s c = Inr s' \<and> k < length (basic_btb s) \<and>
            \<not> always_taken (basic_btb s ! k) \<and> always_taken (basic_btb s' ! k)"
  then show "\<exists>ip2 target2 taken2 bt2 now2.
               c = Update ip2 target2 taken2 bt2 now2 \<and> cache_kind bt2 \<and>
               update_btb_allocates (basic_btb s) ip2 target2 taken2 \<and>
               k = min_element_lru (basic_btb s) (btb_set_begin ip2) BASIC_BTB_WAYS"
    using always_taken_set_only_by_allocation [OF assms(1), of c s' k] by blast
qed

lemma always_taken_decay_while_tag_kept_example:
  "wf_state initialize_btb \<and> cache_kind BRANCH_CONDITIONAL \<and>
   update_btb_allocates (basic_btb initialize_btb) 0x1004 0x2000 1 \<and>
   (\<exists>s1 p s2 t r t'.
      update_btb initialize_btb 0x1004 0x2000 1 BRANCH_CONDITIONAL 5 = Inr s1 \<and>
      btb_prediction s1 0x1004 BRANCH_CONDITIONAL 6 = Inr ((0x2000, 1), p) \<and>
      wf_state s1 \<and>
      find_if_tag (basic_btb s1) 0x1004 (btb_set_begin 0x1004) BASIC_BTB_WAYS
        \<noteq> btb_set_end 0x1004 \<and>
      update_btb s1 0x1004 0x2000 0 BRANCH_CONDITIONAL 7 = Inr s2 \<and>
      btb_run s2 [Update 0x1004 0x2000 1 BRANCH_CONDITIONAL 8] = Inr t \<and>
      btb_prediction t 0x1004 BRANCH_CONDITIONAL 9 = Inr ((r, 0), t') \<and>
      btb_step initialize_btb (Update 0x1004 0x2000 1 BRANCH_CONDITIONAL 5) = Inr s1 \<and>
      \<not> always_taken (basic_btb initialize_btb ! 8) \<and> always_taken (basic_btb s1 ! 8) \<and>
      8 = min_element_lru (basic_btb initialize_btb) (btb_set_begin 0x1004) BASIC_BTB_WAYS)"
proof -
  let ?ip = "0x1004 :: 64 word"
  let ?cs = "[Update ?ip 0x2000 1 BRANCH_CONDITIONAL 8]"
  have k: "cache_kind BRANCH_CONDITIONAL" by (simp add: cache_kind_def)
  have wf0: "wf_state initialize_btb" by (rule wf_state_initialize_btb)
  have a: "update_btb_allocates (basic_btb initialize_btb) ?ip 0x2000 1"
    using initialize_btb_miss [of ?ip] by (simp add: update_btb_allocates_def)
  from always_taken_decay_while_tag_kept [OF wf0 k k, of ?ip "0x2000" 1 5 6] a
  obtain s1 p where u1: "update_btb initialize_btb ?ip 0x2000 1 BRANCH_CONDITIONAL 5 = Inr s1"
    and p1: "btb_prediction s1 ?ip BRANCH_CONDITIONAL 6 = Inr ((0x2000, 1), p)"
    by blast
  let ?j = "find_if_tag (basic_btb s1) ?ip (btb_set_begin ?ip) BASIC_BTB_WAYS"
  from update_btb_allocating [OF wf0 k a, of 5] u1
  have wf1: "wf_state s1" and hit: "?j \<noteq> btb_set_end ?ip" by auto
  from update_btb_on_hit [OF wf1 k refl hit, of "0x2000" 0 7] obtain s2 where
    u2: "update_btb s1 ?ip 0x2000 0 BRANCH_CONDITIONAL 7 = Inr s2" and wf2: "wf_state s2"
    and f2: "find_if_tag (basic_btb s2) ?ip (btb_set_begin ?ip) BASIC_BTB_WAYS = ?j"
    and e2: "ip_tag (basic_btb s2 ! ?j) = ?ip"
    by auto
  from update_btb_on_hit [OF wf2 k f2 hit, of "0x2000" 1 8] obtain t where
    u3: "update_btb s2 ?ip 0x2000 1 BRANCH_CONDITIONAL 8 = Inr t"
    and e3: "ip_tag (basic_btb t ! ?j) = ?ip"
    by auto
  have run: "btb_run s2 ?cs = Inr t" by (simp add: u3)
  have keep: "\<forall>n\<le>length ?cs. \<forall>u. btb_run s2 (take n ?cs) = Inr u \<longrightarrow>
                ip_tag (basic_btb u ! ?j) = ?ip"
  proof (intro allI impI)
    fix n u assume n: "n \<le> length ?cs" and r: "btb_run s2 (take n ?cs) = Inr u"
    from n have "n = 0 \<or> n = 1" by auto
    then show "ip_tag (basic_btb u ! ?j) = ?ip"
    proof
      assume "n = 0"
      with r e2 show ?thesis by simp
    next
      assume "n = 1"
      with r u3 e3 show ?thesis by simp
    qed
  qed
  from always_taken_decay_while_tag_kept [OF wf1 k k, of ?ip "0x2000" 0 7 9] hit u2
  have "\<forall>cs t. btb_run s2 cs = Inr t \<and>
          (\<forall>n\<le>length cs. \<forall>u. btb_run s2 (take n cs) = Inr u \<longrightarrow>
             ip_tag (basic_btb u ! ?j) = ?ip)
          \<longrightarrow> (\<exists>r t'. btb_prediction t ?ip BRANCH_CONDITIONAL 9 = Inr ((r, 0), t'))"
    by auto
  with run keep obtain r t' where
    p3: "btb_prediction t ?ip BRANCH_CONDITIONAL 9 = Inr ((r, 0), t')" by blast
  have st: "btb_step initialize_btb (Update ?ip 0x2000 1 BRANCH_CONDITIONAL 5) = Inr s1"
    by (simp add: u1)
  have b: "btb_set_begin ?ip = 8"
    by (simp add: btb_set_begin_def BASIC_BTB_SETS_def BASIC_BTB_WAYS_def drop_bit_eq_div)
  have f0: "\<not> always_taken (basic_btb initialize_btb ! 8)"
    by (simp add: initialize_btb_nth)
  have v8: "min_element_lru (basic_btb initialize_btb) 8 BASIC_BTB_WAYS = 8"
    using initialize_btb_victim [of ?ip] by (simp add: b)
  from update_btb_allocating [OF wf0 k a, of 5] u1
  have f1: "always_taken (basic_btb s1 ! 8)"
    by (auto simp: b v8)
  have l: "(8 :: nat) < length (basic_btb initialize_btb)"
    by (simp add: initialize_btb_length)
  from always_taken_decay_while_tag_kept [OF wf0 k k, of ?ip "0x2000" 1 5 6] st l f0 f1
  have "\<exists>ip2 target2 taken2 bt2 now2.
          Update ?ip 0x2000 1 BRANCH_CONDITIONAL 5 = Update ip2 target2 taken2 bt2 now2 \<and>
          8 = min_element_lru (basic_btb initialize_btb) (btb_set_begin ip2) BASIC_BTB_WAYS"
    by blast
  then have v: "8 = min_element_lru (basic_btb initialize_btb) (btb_set_begin ?ip) BASIC_BTB_WAYS"
    by auto
  from wf0 k a u1 p1 wf1 hit u2 run p3 st f0 f1 v show ?thesis by blast
qed

section \<open>A cleared entry lost to the write through the end position\<close>

text \<open>
  States that differ from the initial one in the history register and in position 8 of
  the target cache, the first entry of set 1.
\<close>

lemma slot8_wf:
  "wf_state (initialize_btb\<lparr>basic_btb_conditional_history := h,
                             basic_btb := (basic_btb initialize_btb)[8 := e]\<rparr>)"
  using wf_state_initialize_btb by (simp add: wf_state_def)

lemma slot8_nth:
  "k < 8192 \<Longrightarrow>
     (basic_btb initialize_btb)[8 := e] ! k =
       (if k = 8 then e
        else \<lparr>ip_tag = 0, target = 0, always_taken = False, last_cycle_used = 0\<rparr>)"
  by (simp add: nth_list_update initialize_btb_length initialize_btb_nth)

lemma slot8_find_hit:
  assumes "ip_tag e = ip" and "btb_set_begin ip = 8"
  shows "find_if_tag ((basic_btb initialize_btb)[8 := e]) ip (btb_set_begin ip) BASIC_BTB_WAYS = 8"
    and "btb_set_end ip \<noteq> 8"
proof -
  have "(8 :: nat) < length (basic_btb initialize_btb)" by (simp add: initialize_btb_length)
  with assms(1) have t: "ip_tag ((basic_btb initialize_btb)[8 := e] ! 8) = ip" by simp
  have "find_if_tag ((basic_btb initialize_btb)[8 := e]) ip 8 BASIC_BTB_WAYS = 8"
    by (rule find_if_tag_eqI [OF _ _ t]) (simp_all add: BASIC_BTB_WAYS_def)
  then show "find_if_tag ((basic_btb initialize_btb)[8 := e]) ip (btb_set_begin ip)
               BASIC_BTB_WAYS = 8"
    by (simp add: assms(2))
  show "btb_set_end ip \<noteq> 8"
    using assms(2) by (simp add: btb_set_end_def BASIC_BTB_WAYS_def)
qed

lemma slot8_find_miss:
  assumes "ip \<noteq> 0" and "ip_tag e \<noteq> ip"
  shows "find_if_tag ((basic_btb initialize_btb)[8 := e]) ip (btb_set_begin ip) BASIC_BTB_WAYS
           = btb_set_end ip"
proof -
  have "ip_tag ((basic_btb initialize_btb)[8 := e] ! k) \<noteq> ip"
    if "k < btb_set_begin ip + BASIC_BTB_WAYS" for k
  proof -
    from that btb_set_end_le [of ip] have "k < 8192"
      by (simp add: btb_set_end_def BASIC_BTB_SETS_def BASIC_BTB_WAYS_def)
    then show ?thesis using assms by (simp add: slot8_nth)
  qed
  then show ?thesis
    unfolding btb_set_end_def find_if_tag_miss_iff by simp
qed

lemma slot8_prediction_hit:
  assumes "ip_tag e = ip" and "btb_set_begin ip = 8"
  shows "btb_prediction
           (initialize_btb\<lparr>basic_btb_conditional_history := h,
                           basic_btb := (basic_btb initialize_btb)[8 := e]\<rparr>)
           ip BRANCH_CONDITIONAL now =
         Inr ((target e, if always_taken e then 1 else 0),
              initialize_btb\<lparr>basic_btb_conditional_history := h,
                basic_btb := (basic_btb initialize_btb)[8 := e\<lparr>last_cycle_used := now\<rparr>]\<rparr>)"
proof -
  have k: "cache_kind BRANCH_CONDITIONAL" by (simp add: cache_kind_def)
  from btb_prediction_cache [OF slot8_wf [where h = h and e = e] k, of ip now] slot8_find_hit [OF assms]
  show ?thesis by (simp add: Let_def slot8_nth)
qed

lemma slot8_prediction_miss:
  assumes "ip \<noteq> 0" and "ip_tag e \<noteq> ip"
  shows "btb_prediction
           (initialize_btb\<lparr>basic_btb_conditional_history := h,
                           basic_btb := (basic_btb initialize_btb)[8 := e]\<rparr>)
           ip BRANCH_CONDITIONAL now =
         Inr ((0, 1),
              initialize_btb\<lparr>basic_btb_conditional_history := h,
                basic_btb := (basic_btb initialize_btb)[8 := e]\<rparr>)"
proof -
  have k: "cache_kind BRANCH_CONDITIONAL" by (simp add: cache_kind_def)
  from btb_prediction_cache [OF slot8_wf [where h = h and e = e] k, of ip now] slot8_find_miss [OF assms]
  show ?thesis by (simp add: Let_def)
qed

lemma slot8_update_hit:
  assumes "ip_tag e = ip" and "btb_set_begin ip = 8"
  shows "update_btb
           (initialize_btb\<lparr>basic_btb_conditional_history := h,
                           basic_btb := (basic_btb initialize_btb)[8 := e]\<rparr>)
           ip branch_target taken BRANCH_CONDITIONAL now =
         Inr (initialize_btb\<lparr>basic_btb_conditional_history := bitset_set0 (h * 2) (taken \<noteq> 0),
                basic_btb := (basic_btb initialize_btb)
                  [8 := \<lparr>ip_tag = ip, target = branch_target,
                         always_taken = (always_taken e \<and> taken \<noteq> 0),
                         last_cycle_used = now\<rparr>]\<rparr>)"
proof -
  let ?arr = "(basic_btb initialize_btb)[8 := e]"
  have k: "cache_kind BRANCH_CONDITIONAL" by (simp add: cache_kind_def)
  from slot8_find_hit [OF assms]
  have hit: "find_if_tag ?arr ip (btb_set_begin ip) BASIC_BTB_WAYS \<noteq> btb_set_end ip"
    and f: "find_if_tag ?arr ip (btb_set_begin ip) BASIC_BTB_WAYS = 8"
    by simp_all
  from update_btb_slot_hit(1,2) [OF hit, of branch_target taken] f
  have sl: "update_btb_slot ?arr ip branch_target taken = 8"
    and na: "\<not> update_btb_allocates ?arr ip branch_target taken" by simp_all
  show ?thesis
    by (simp add: update_btb_cache [OF slot8_wf k] sl na Let_def slot8_nth
        initialize_btb_length)
qed

text \<open>
  A miss in set 0 that does not allocate: the assignment goes through position 8, the
  end position of set 0, and replaces the entry of set 1 that lives there.
\<close>

lemma slot8_update_stray:
  assumes "ip \<noteq> 0" and "ip_tag e \<noteq> ip" and "btb_set_end ip = 8"
    and "branch_target = 0 \<or> taken = 0"
  shows "update_btb
           (initialize_btb\<lparr>basic_btb_conditional_history := h,
                           basic_btb := (basic_btb initialize_btb)[8 := e]\<rparr>)
           ip branch_target taken BRANCH_CONDITIONAL now =
         Inr (initialize_btb\<lparr>basic_btb_conditional_history := bitset_set0 (h * 2) (taken \<noteq> 0),
                basic_btb := (basic_btb initialize_btb)
                  [8 := \<lparr>ip_tag = ip, target = branch_target,
                         always_taken = (always_taken e \<and> taken \<noteq> 0),
                         last_cycle_used = now\<rparr>]\<rparr>)"
    and "\<not> update_btb_allocates ((basic_btb initialize_btb)[8 := e]) ip branch_target taken"
    and "update_btb_slot ((basic_btb initialize_btb)[8 := e]) ip branch_target taken = 8"
proof -
  let ?arr = "(basic_btb initialize_btb)[8 := e]"
  have k: "cache_kind BRANCH_CONDITIONAL" by (simp add: cache_kind_def)
  have miss: "find_if_tag ?arr ip (btb_set_begin ip) BASIC_BTB_WAYS = btb_set_end ip"
    by (rule slot8_find_miss [OF assms(1,2)])
  from update_btb_slot_stray [OF miss assms(4)] assms(3)
  show sl: "update_btb_slot ?arr ip branch_target taken = 8" by simp
  from assms(4) show na: "\<not> update_btb_allocates ?arr ip branch_target taken"
    by (auto simp: update_btb_allocates_def)
  show "update_btb
           (initialize_btb\<lparr>basic_btb_conditional_history := h, basic_btb := ?arr\<rparr>)
           ip branch_target taken BRANCH_CONDITIONAL now =
         Inr (initialize_btb\<lparr>basic_btb_conditional_history := bitset_set0 (h * 2) (taken \<noteq> 0),
                basic_btb := (basic_btb initialize_btb)
                  [8 := \<lparr>ip_tag = ip, target = branch_target,
                         always_taken = (always_taken e \<and> taken \<noteq> 0),
                         last_cycle_used = now\<rparr>]\<rparr>)"
    by (simp add: update_btb_cache [OF slot8_wf k] sl na Let_def slot8_nth
        initialize_btb_length)
qed

text \<open>
  C3 (evaluation at the failing input): after initialisation, every update preceded by
  the prediction for the same branch. The conditional branch at \<open>0x1004\<close> (set 1) is
  allocated by a taken update into position 8 and then updated not-taken; a prediction
  for it reports the stored target with the flag cleared. Then the conditional branch
  at \<open>0x1000\<close> (set 0, positions 0 to 7), never seen before, is predicted and updated
  not-taken: the update allocates nothing, and its assignment goes through position 8.
  The next prediction for \<open>0x1004\<close> misses and returns \<open>(0, 1)\<close>: the flag is reported
  set again, although no update has allocated anything since the flag was cleared.
\<close>

theorem always_taken_reported_after_stray_write:
  "btb_run initialize_btb
     [Predict 0x1004 BRANCH_CONDITIONAL 1, Update 0x1004 0x2000 1 BRANCH_CONDITIONAL 2,
      Predict 0x1004 BRANCH_CONDITIONAL 3, Update 0x1004 0x2000 0 BRANCH_CONDITIONAL 4]
     = Inr (initialize_btb\<lparr>basic_btb_conditional_history := 2,
              basic_btb := (basic_btb initialize_btb)
                [8 := \<lparr>ip_tag = 0x1004, target = 0x2000, always_taken = False,
                       last_cycle_used = 4\<rparr>]\<rparr>) \<and>
   btb_prediction
     (initialize_btb\<lparr>basic_btb_conditional_history := 2,
        basic_btb := (basic_btb initialize_btb)
          [8 := \<lparr>ip_tag = 0x1004, target = 0x2000, always_taken = False,
                 last_cycle_used = 4\<rparr>]\<rparr>)
     0x1004 BRANCH_CONDITIONAL 5
     = Inr ((0x2000, 0),
            initialize_btb\<lparr>basic_btb_conditional_history := 2,
              basic_btb := (basic_btb initialize_btb)
                [8 := \<lparr>ip_tag = 0x1004, target = 0x2000, always_taken = False,
                       last_cycle_used = 5\<rparr>]\<rparr>) \<and>
   btb_set_begin 0x1004 = 8 \<and> btb_set_end 0x1000 = 8 \<and>
   \<not> update_btb_allocates
       ((basic_btb initialize_btb)
          [8 := \<lparr>ip_tag = 0x1004, target = 0x2000, always_taken = False,
                 last_cycle_used = 5\<rparr>]) 0x1000 0x3000 0 \<and>
   update_btb_slot
       ((basic_btb initialize_btb)
          [8 := \<lparr>ip_tag = 0x1004, target = 0x2000, always_taken = False,
                 last_cycle_used = 5\<rparr>]) 0x1000 0x3000 0 = 8 \<and>
   btb_run
     (initialize_btb\<lparr>basic_btb_conditional_history := 2,
        basic_btb := (basic_btb initialize_btb)
          [8 := \<lparr>ip_tag = 0x1004, target = 0x2000, always_taken = False,
                 last_cycle_used = 5\<rparr>]\<rparr>)
     [Predict 0x1000 BRANCH_CONDITIONAL 6, Update 0x1000 0x3000 0 BRANCH_CONDITIONAL 7]
     = Inr (initialize_btb\<lparr>basic_btb_conditional_history := 4,
              basic_btb := (basic_btb initialize_btb)
                [8 := \<lparr>ip_tag = 0x1000, target = 0x3000, always_taken = False,
                       last_cycle_used = 7\<rparr>]\<rparr>) \<and>
   btb_prediction
     (initialize_btb\<lparr>basic_btb_conditional_history := 4,
        basic_btb := (basic_btb initialize_btb)
          [8 := \<lparr>ip_tag = 0x1000, target = 0x3000, always_taken = False,
                 last_cycle_used = 7\<rparr>]\<rparr>)
     0x1004 BRANCH_CONDITIONAL 8
     = Inr ((0, 1),
            initialize_btb\<lparr>basic_btb_conditional_history := 4,
              basic_btb := (basic_btb initialize_btb)
                [8 := \<lparr>ip_tag = 0x1000, target = 0x3000, always_taken = False,
                       last_cycle_used = 7\<rparr>]\<rparr>)"
proof -
  let ?C = BRANCH_CONDITIONAL
  have k: "cache_kind ?C" by (simp add: cache_kind_def)
  have b: "btb_set_begin 0x1004 = 8" and e: "btb_set_end 0x1000 = 8"
    by (simp_all add: btb_set_end_def btb_set_begin_def BASIC_BTB_SETS_def BASIC_BTB_WAYS_def
        drop_bit_eq_div)
  have h: "bitset_set0 2 False = 2" "bitset_set0 4 False = 4"
    by (simp_all add: bitset_set0_def)
  have m0: "find_if_tag (basic_btb initialize_btb) 0x1004 (btb_set_begin 0x1004) BASIC_BTB_WAYS
              = btb_set_end 0x1004"
    by (rule initialize_btb_miss) simp
  from btb_prediction_cache [OF wf_state_initialize_btb k, of "0x1004" 1] m0
  have c1: "btb_step initialize_btb (Predict 0x1004 ?C 1) = Inr initialize_btb"
    by (simp add: Let_def)
  have c2: "btb_step initialize_btb (Update 0x1004 0x2000 1 ?C 2) =
              Inr (initialize_btb\<lparr>basic_btb_conditional_history := 1,
                     basic_btb := (basic_btb initialize_btb)
                       [8 := \<lparr>ip_tag = 0x1004, target = 0x2000, always_taken = True,
                              last_cycle_used = 2\<rparr>]\<rparr>)"
    by (simp add: initialize_btb_allocate [OF _ _ _ k] b)
  have c3: "btb_step
              (initialize_btb\<lparr>basic_btb_conditional_history := 1,
                 basic_btb := (basic_btb initialize_btb)
                   [8 := \<lparr>ip_tag = 0x1004, target = 0x2000, always_taken = True,
                          last_cycle_used = 2\<rparr>]\<rparr>)
              (Predict 0x1004 ?C 3) =
            Inr (initialize_btb\<lparr>basic_btb_conditional_history := 1,
                   basic_btb := (basic_btb initialize_btb)
                     [8 := \<lparr>ip_tag = 0x1004, target = 0x2000, always_taken = True,
                            last_cycle_used = 3\<rparr>]\<rparr>)"
    by (simp add: slot8_prediction_hit b)
  have c4: "btb_step
              (initialize_btb\<lparr>basic_btb_conditional_history := 1,
                 basic_btb := (basic_btb initialize_btb)
                   [8 := \<lparr>ip_tag = 0x1004, target = 0x2000, always_taken = True,
                          last_cycle_used = 3\<rparr>]\<rparr>)
              (Update 0x1004 0x2000 0 ?C 4) =
            Inr (initialize_btb\<lparr>basic_btb_conditional_history := 2,
                   basic_btb := (basic_btb initialize_btb)
                     [8 := \<lparr>ip_tag = 0x1004, target = 0x2000, always_taken = False,
                            last_cycle_used = 4\<rparr>]\<rparr>)"
    by (simp add: slot8_update_hit b h)
  have r1: "btb_run initialize_btb
     [Predict 0x1004 ?C 1, Update 0x1004 0x2000 1 ?C 2,
      Predict 0x1004 ?C 3, Update 0x1004 0x2000 0 ?C 4]
     = Inr (initialize_btb\<lparr>basic_btb_conditional_history := 2,
              basic_btb := (basic_btb initialize_btb)
                [8 := \<lparr>ip_tag = 0x1004, target = 0x2000, always_taken = False,
                       last_cycle_used = 4\<rparr>]\<rparr>)"
    by (simp only: btb_run.simps c1 c2 c3 c4 sum.case)
  have p5: "btb_prediction
     (initialize_btb\<lparr>basic_btb_conditional_history := 2,
        basic_btb := (basic_btb initialize_btb)
          [8 := \<lparr>ip_tag = 0x1004, target = 0x2000, always_taken = False,
                 last_cycle_used = 4\<rparr>]\<rparr>)
     0x1004 ?C 5
     = Inr ((0x2000, 0),
            initialize_btb\<lparr>basic_btb_conditional_history := 2,
              basic_btb := (basic_btb initialize_btb)
                [8 := \<lparr>ip_tag = 0x1004, target = 0x2000, always_taken = False,
                       last_cycle_used = 5\<rparr>]\<rparr>)"
    by (simp add: slot8_prediction_hit b)
  have c6: "btb_step
              (initialize_btb\<lparr>basic_btb_conditional_history := 2,
                 basic_btb := (basic_btb initialize_btb)
                   [8 := \<lparr>ip_tag = 0x1004, target = 0x2000, always_taken = False,
                          last_cycle_used = 5\<rparr>]\<rparr>)
              (Predict 0x1000 ?C 6) =
            Inr (initialize_btb\<lparr>basic_btb_conditional_history := 2,
                   basic_btb := (basic_btb initialize_btb)
                     [8 := \<lparr>ip_tag = 0x1004, target = 0x2000, always_taken = False,
                            last_cycle_used = 5\<rparr>]\<rparr>)"
    by (simp add: slot8_prediction_miss)
  have c7: "btb_step
              (initialize_btb\<lparr>basic_btb_conditional_history := 2,
                 basic_btb := (basic_btb initialize_btb)
                   [8 := \<lparr>ip_tag = 0x1004, target = 0x2000, always_taken = False,
                          last_cycle_used = 5\<rparr>]\<rparr>)
              (Update 0x1000 0x3000 0 ?C 7) =
            Inr (initialize_btb\<lparr>basic_btb_conditional_history := 4,
                   basic_btb := (basic_btb initialize_btb)
                     [8 := \<lparr>ip_tag = 0x1000, target = 0x3000, always_taken = False,
                            last_cycle_used = 7\<rparr>]\<rparr>)"
    by (simp add: slot8_update_stray(1) e h)
  have r2: "btb_run
     (initialize_btb\<lparr>basic_btb_conditional_history := 2,
        basic_btb := (basic_btb initialize_btb)
          [8 := \<lparr>ip_tag = 0x1004, target = 0x2000, always_taken = False,
                 last_cycle_used = 5\<rparr>]\<rparr>)
     [Predict 0x1000 ?C 6, Update 0x1000 0x3000 0 ?C 7]
     = Inr (initialize_btb\<lparr>basic_btb_conditional_history := 4,
              basic_btb := (basic_btb initialize_btb)
                [8 := \<lparr>ip_tag = 0x1000, target = 0x3000, always_taken = False,
                       last_cycle_used = 7\<rparr>]\<rparr>)"
    by (simp only: btb_run.simps c6 c7 sum.case)
  have na: "\<not> update_btb_allocates
       ((basic_btb initialize_btb)
          [8 := \<lparr>ip_tag = 0x1004, target = 0x2000, always_taken = False,
                 last_cycle_used = 5\<rparr>]) 0x1000 0x3000 0"
    by (rule slot8_update_stray(2)) (simp_all add: e)
  have sl: "update_btb_slot
       ((basic_btb initialize_btb)
          [8 := \<lparr>ip_tag = 0x1004, target = 0x2000, always_taken = False,
                 last_cycle_used = 5\<rparr>]) 0x1000 0x3000 0 = 8"
    by (rule slot8_update_stray(3)) (simp_all add: e)
  have p8: "btb_prediction
     (initialize_btb\<lparr>basic_btb_conditional_history := 4,
        basic_btb := (basic_btb initialize_btb)
          [8 := \<lparr>ip_tag = 0x1000, target = 0x3000, always_taken = False,
                 last_cycle_used = 7\<rparr>]\<rparr>)
     0x1004 ?C 8
     = Inr ((0, 1),
            initialize_btb\<lparr>basic_btb_conditional_history := 4,
              basic_btb := (basic_btb initialize_btb)
                [8 := \<lparr>ip_tag = 0x1000, target = 0x3000, always_taken = False,
                       last_cycle_used = 7\<rparr>]\<rparr>)"
    by (simp add: slot8_prediction_miss)
  from r1 p5 b e na sl r2 p8 show ?thesis by (intro conjI)
qed

end
